theory Spec2Isabelle
  imports Main
begin

section \<open>Strings of the host language\<close>

text \<open>
  A string is a list of code units; the development covers strings whose code units are
  below 256, one \<^typ>\<open>char\<close> each. The regular expression classes \<open>\w\<close> and \<open>\s\<close> and
  the method \<open>trim\<close> are the ones of the ECMAScript standard, cut down to that range:
  \<open>\w\<close> is \<open>[A-Za-z0-9_]\<close>; \<open>\s\<close> and \<open>trim\<close> know tab, line feed, vertical tab, form
  feed, carriage return, space and the no-break space.
\<close>

definition dquote :: char where
  "dquote = CHR 0x22"

definition squote :: char where
  "squote = CHR 0x27"

definition bslash :: char where
  "bslash = CHR 0x5C"

definition is_word :: "char \<Rightarrow> bool" where
  "is_word c \<longleftrightarrow>
     c \<in> set ''abcdefghijklmnopqrstuvwxyzABCDEFGHIJKLMNOPQRSTUVWXYZ0123456789_''"

definition is_space :: "char \<Rightarrow> bool" where
  "is_space c \<longleftrightarrow>
     c \<in> set [CHR 0x09, CHR 0x0A, CHR 0x0B, CHR 0x0C, CHR 0x0D, CHR 0x20, CHR 0xA0]"

definition trim :: "string \<Rightarrow> string" where
  "trim s = rev (dropWhile is_space (rev (dropWhile is_space s)))"

text \<open>The truth value of a string in a condition: only the empty string is falsy.\<close>

definition truthy_str :: "string \<Rightarrow> bool" where
  "truthy_str s \<longleftrightarrow> s \<noteq> []"

section \<open>Object properties\<close>

text \<open>
  An object is the list of its own properties in enumeration order: the keys that are array
  indices (canonical decimal numerals below \<open>2^32 - 1\<close>) in ascending numeric order, then
  the other keys in the order of their creation. Writing an existing key keeps its place.
\<close>

definition is_digit :: "char \<Rightarrow> bool" where
  "is_digit c \<longleftrightarrow> c \<in> set ''0123456789''"

definition digit_val :: "char \<Rightarrow> int" where
  "digit_val c = of_char c - 48"

definition int_of_digits :: "string \<Rightarrow> int" where
  "int_of_digits ds = foldl (\<lambda>n c. 10 * n + digit_val c) 0 ds"

definition is_array_index :: "string \<Rightarrow> bool" where
  "is_array_index k \<longleftrightarrow>
     k \<noteq> [] \<and> list_all is_digit k \<and> (k = ''0'' \<or> hd k \<noteq> CHR ''0'') \<and>
     int_of_digits k < 4294967295"

fun insert_index :: "string \<Rightarrow> 'v \<Rightarrow> (string \<times> 'v) list \<Rightarrow> (string \<times> 'v) list" where
  "insert_index k v [] = [(k, v)]"
| "insert_index k v ((k', v') # ps) =
     (if is_array_index k' \<and> int_of_digits k' < int_of_digits k
      then (k', v') # insert_index k v ps
      else (k, v) # (k', v') # ps)"

fun has_prop :: "string \<Rightarrow> (string \<times> 'v) list \<Rightarrow> bool" where
  "has_prop k [] = False"
| "has_prop k ((k', v') # ps) = (k' = k \<or> has_prop k ps)"

fun overwrite :: "string \<Rightarrow> 'v \<Rightarrow> (string \<times> 'v) list \<Rightarrow> (string \<times> 'v) list" where
  "overwrite k v [] = []"
| "overwrite k v ((k', v') # ps) =
     (if k' = k then (k, v) # ps else (k', v') # overwrite k v ps)"

definition set_prop :: "string \<Rightarrow> 'v \<Rightarrow> (string \<times> 'v) list \<Rightarrow> (string \<times> 'v) list" where
  "set_prop k v ps =
     (if has_prop k ps then overwrite k v ps
      else if is_array_index k then insert_index k v ps
      else ps @ [(k, v)])"

fun get_prop :: "(string \<times> 'v) list \<Rightarrow> string \<Rightarrow> 'v option" where
  "get_prop [] k = None"
| "get_prop ((k', v') # ps) k = (if k' = k then Some v' else get_prop ps k)"

section \<open>The attribute parser of the block rewriter\<close>

text \<open>
  \<open>parseCodeBlockAttributes\<close> replaces every match of
  \<^verbatim>\<open>/(?<=^|\s)(\w+)(?:=(?:"([^"]*)"|'([^']*)'))?/g\<close>
  by the empty string and records \<open>attributes[name] = value1 ?? value2 ?? null\<close> at each
  match. The bag \<open>attributes\<close> starts as the object literal \<open>{}\<close>, whose prototype carries the
  accessor \<open>__proto__\<close>: assigning \<open>null\<close> to that name sets the prototype to \<open>null\<close> and
  creates no property, assigning a string does nothing; once the prototype is \<open>null\<close> the
  name is an ordinary key.
\<close>

record bag =
  entries :: "(string \<times> string option) list"
  null_proto :: bool

definition empty_bag :: bag where
  "empty_bag = \<lparr>entries = [], null_proto = False\<rparr>"

definition assign :: "string \<Rightarrow> string option \<Rightarrow> bag \<Rightarrow> bag" where
  "assign name v b =
     (if name = ''__proto__'' \<and> \<not> null_proto b
      then (case v of None \<Rightarrow> b\<lparr>null_proto := True\<rparr> | Some _ \<Rightarrow> b)
      else b\<lparr>entries := set_prop name v (entries b)\<rparr>)"

text \<open>
  The optional group \<^verbatim>\<open>(?:=(?:"([^"]*)"|'([^']*)'))\<close> tried at the head of a string: the
  text it matched, the captured value and the input left after the closing quote, or
  \<open>None\<close> when the group does not match there.
\<close>

fun match_value :: "string \<Rightarrow> (string \<times> string \<times> string) option" where
  "match_value (e # q # t) =
     (if e = CHR ''='' \<and> (q = dquote \<or> q = squote)
      then (case dropWhile (\<lambda>c. c \<noteq> q) t of
              [] \<Rightarrow> None
            | _ # r \<Rightarrow>
                Some (e # q # takeWhile (\<lambda>c. c \<noteq> q) t @ [q], takeWhile (\<lambda>c. c \<noteq> q) t, r))
      else None)"
| "match_value _ = None"

text \<open>The look-behind \<^verbatim>\<open>(?<=^|\s)\<close>, given the code unit before the position.\<close>

definition lookbehind :: "char option \<Rightarrow> bool" where
  "lookbehind prev = (case prev of None \<Rightarrow> True | Some p \<Rightarrow> is_space p)"

lemma match_value_shorter:
  "match_value s = Some (g, v, r) \<Longrightarrow> length r < length s"
proof (cases s rule: match_value.cases)
  case (1 e q t)
  assume m: "match_value s = Some (g, v, r)"
  from m 1 obtain x where d: "dropWhile (\<lambda>c. c \<noteq> q) t = x # r"
    by (auto split: if_splits list.splits)
  have "length (dropWhile (\<lambda>c. c \<noteq> q) t) \<le> length t"
    by (rule length_dropWhile_le)
  with d 1 show ?thesis by simp
qed simp_all

text \<open>
  The global replacement: \<open>scan prev s attrs\<close> runs over the rest \<open>s\<close> of the input, the
  code unit before it being \<open>prev\<close>; it returns the bag after the callbacks and the text
  that is kept. A match is never empty, so the search resumes right after it.
\<close>

function scan :: "char option \<Rightarrow> string \<Rightarrow> bag \<Rightarrow> bag \<times> string" where
  "scan prev [] attrs = (attrs, [])"
| "scan prev (c # cs) attrs =
     (if lookbehind prev \<and> is_word c then
        (case match_value (dropWhile is_word (c # cs)) of
           Some (grp, v, rest) \<Rightarrow>
             scan (Some (last grp)) rest (assign (takeWhile is_word (c # cs)) (Some v) attrs)
         | None \<Rightarrow>
             scan (Some (last (takeWhile is_word (c # cs)))) (dropWhile is_word (c # cs))
               (assign (takeWhile is_word (c # cs)) None attrs))
      else (case scan (Some c) cs attrs of (attrs', kept) \<Rightarrow> (attrs', c # kept)))"
  by pat_completeness auto
termination
proof (relation "measure (\<lambda>(prev, s, attrs). length s)", goal_cases)
  case 1
  show ?case by simp
next
  case (3 prev c cs attrs x2 grp y v rest)
  then have "length rest < length (dropWhile is_word (c # cs))"
    using match_value_shorter by metis
  also have "\<dots> \<le> length (c # cs)" by (rule length_dropWhile_le)
  finally show ?case by simp
next
  case (2 prev c cs attrs)
  then have "length (dropWhile is_word (c # cs)) \<le> length cs"
    using length_dropWhile_le [of is_word cs] by simp
  then show ?case by simp
next
  case (4 prev c cs attrs)
  then show ?case by simp
qed

record code_block_attributes =
  attributes :: bag
  rest :: string

definition parseCodeBlockAttributes :: "string \<Rightarrow> code_block_attributes" where
  "parseCodeBlockAttributes meta =
     (case scan None meta empty_bag of
        (attrs, str) \<Rightarrow> \<lparr>attributes = attrs, rest = trim str\<rparr>)"


text \<open>
  The positions that the global search visits. \<open>arrives prev s attrs kept prev' s' attrs'\<close>:
  the search that stands before \<open>s\<close>, after the code unit \<open>prev\<close> and with the bag \<open>attrs\<close>,
  comes to stand before the suffix \<open>s'\<close> of \<open>s\<close>, after \<open>prev'\<close> and with the bag \<open>attrs'\<close>,
  having kept the text \<open>kept\<close> on its way. Each rule is one step of \<open>scan\<close>.
\<close>

inductive arrives ::
  "char option \<Rightarrow> string \<Rightarrow> bag \<Rightarrow> string \<Rightarrow> char option \<Rightarrow> string \<Rightarrow> bag \<Rightarrow> bool" where
  here: "arrives prev s attrs [] prev s attrs"
| kept: "\<not> (lookbehind prev \<and> is_word c) \<Longrightarrow> arrives (Some c) cs attrs kept prev' s' attrs' \<Longrightarrow>
     arrives prev (c # cs) attrs (c # kept) prev' s' attrs'"
| attribute: "lookbehind prev \<Longrightarrow> is_word c \<Longrightarrow>
     match_value (dropWhile is_word (c # cs)) = Some (grp, v, r) \<Longrightarrow>
     arrives (Some (last grp)) r (assign (takeWhile is_word (c # cs)) (Some v) attrs)
       kept prev' s' attrs' \<Longrightarrow>
     arrives prev (c # cs) attrs kept prev' s' attrs'"
| flag: "lookbehind prev \<Longrightarrow> is_word c \<Longrightarrow>
     match_value (dropWhile is_word (c # cs)) = None \<Longrightarrow>
     arrives (Some (last (takeWhile is_word (c # cs)))) (dropWhile is_word (c # cs))
       (assign (takeWhile is_word (c # cs)) None attrs) kept prev' s' attrs' \<Longrightarrow>
     arrives prev (c # cs) attrs kept prev' s' attrs'"

text \<open>
  A name is recorded in a bag when it is one of its keys or, for the name \<open>__proto__\<close>,
  when the prototype of the bag has been set to \<open>null\<close>.
\<close>

definition recorded :: "string \<Rightarrow> bag \<Rightarrow> bool" where
  "recorded name b \<longleftrightarrow> has_prop name (entries b) \<or> name = ''__proto__'' \<and> null_proto b"

section \<open>Values of the host language\<close>

text \<open>
  The values that \<open>JSON.parse\<close> and the resolver produce. A number of the host language is
  a binary floating point number of 64 bits, and a decimal numeral is read as the number
  nearest to it. \<open>JNum m e\<close> stands for the number that the decimal \<open>m * 10^e\<close> is read as.
  It is used for the decimals on which reading is one-to-one and printing gives the digits
  back, so that the decimal tells everything about the number: zero, the decimals of at
  most 15 significant digits with a magnitude from \<open>10^-301\<close> to \<open>10^300\<close>, and the integers
  of magnitude at most \<open>2^53\<close>, which are numbers themselves. The other numbers are not
  represented. Zero stands for both zeros, which no operation used here tells apart. \<open>JNaN\<close>
  is the not-a-number value. The value \<open>undefined\<close> occurs only as the result of reading a
  property, where it is \<open>None\<close>.
\<close>

datatype jsval =
    JNull
  | JBool bool
  | JNum int int
  | JNaN
  | JStr string
  | JArr "jsval list"
  | JObj "(string \<times> jsval) list"

type_synonym jsobject = "(string \<times> jsval) list"

definition exact_double :: "int \<Rightarrow> bool" where
  "exact_double n \<longleftrightarrow> \<bar>n\<bar> \<le> 9007199254740992"

text \<open>
  The ways a computation ends: it returns a value, it throws, or it goes on with a value
  that is not represented here (a string with a code unit above 255, a number outside the
  decimals above). Nothing is stated about a computation of the third kind.
\<close>

datatype js_error = TypeError | SyntaxError

datatype 'a result = Returns 'a | Throws js_error | Unrepresented

fun truthy :: "jsval option \<Rightarrow> bool" where
  "truthy None = False"
| "truthy (Some JNull) = False"
| "truthy (Some (JBool b)) = b"
| "truthy (Some (JNum m e)) = (m \<noteq> 0)"
| "truthy (Some JNaN) = False"
| "truthy (Some (JStr s)) = (s \<noteq> [])"
| "truthy (Some (JArr xs)) = True"
| "truthy (Some (JObj ps)) = True"

text \<open>The decimal digits of a number that is not negative.\<close>

function digits_of_int :: "int \<Rightarrow> string" where
  "digits_of_int n =
     (if n < 10 then [char_of (48 + n)]
      else digits_of_int (n div 10) @ [char_of (48 + n mod 10)])"
  by pat_completeness auto
termination
  by (relation "measure nat") auto

declare digits_of_int.simps [simp del]

text \<open>
  The decimals that stand for a number: \<open>m * 10^e\<close> is zero, or has at most 15 significant
  digits and lies between \<open>10^-301\<close> and \<open>10^300\<close> in magnitude, or is an integer of
  magnitude at most \<open>2^53\<close> (for a positive \<open>m\<close> and \<open>e > 16\<close> it is above \<open>2^53\<close>).
\<close>

definition represented :: "int \<Rightarrow> int \<Rightarrow> bool" where
  "represented m e \<longleftrightarrow>
     m = 0 \<or>
     (let ds = digits_of_int \<bar>m\<bar>;
          z = length (takeWhile (\<lambda>c. c = CHR ''0'') (rev ds));
          n = int (length ds) + e
      in length ds - z \<le> 15 \<and> - 300 \<le> n \<and> n \<le> 300) \<or>
     (0 \<le> e \<and> e \<le> 16 \<and> exact_double (m * 10 ^ nat e))"

text \<open>
  \<open>Number::toString\<close> in radix 10, for the number \<open>m * 10^e\<close>: its significant digits
  \<open>ds\<close>, \<open>k\<close> of them, and the place \<open>n\<close> of the decimal point, the number being
  \<open>0.ds * 10^n\<close>.
\<close>

definition number_to_string :: "int \<Rightarrow> int \<Rightarrow> string" where
  "number_to_string m e =
     (if m = 0 then ''0''
      else
        let ds0 = digits_of_int \<bar>m\<bar>;
            z = length (takeWhile (\<lambda>c. c = CHR ''0'') (rev ds0));
            ds = take (length ds0 - z) ds0;
            k = length ds;
            n = int k + int z + e;
            ex = (if n - 1 < 0 then ''-'' else ''+'') @ digits_of_int \<bar>n - 1\<bar>;
            body =
              (if int k \<le> n \<and> n \<le> 21 then ds @ replicate (nat (n - int k)) (CHR ''0'')
               else if 0 < n \<and> n \<le> 21 then take (nat n) ds @ ''.'' @ drop (nat n) ds
               else if - 6 < n \<and> n \<le> 0 then ''0.'' @ replicate (nat (- n)) (CHR ''0'') @ ds
               else if k = 1 then ds @ ''e'' @ ex
               else take 1 ds @ ''.'' @ drop 1 ds @ ''e'' @ ex)
        in (if m < 0 then ''-'' else []) @ body)"

text \<open>
  The conversion \<open>ToString\<close>. An array joins its elements with commas, \<open>null\<close> giving the
  empty string. An object is converted by the inherited method \<open>toString\<close>; an own property
  of that name shadows it by a value that cannot be called, and the conversion throws.
\<close>

fun ToString :: "jsval \<Rightarrow> string result"
  and join_elems :: "jsval list \<Rightarrow> string result" where
  "ToString JNull = Returns ''null''"
| "ToString (JBool b) = Returns (if b then ''true'' else ''false'')"
| "ToString (JNum m e) = Returns (number_to_string m e)"
| "ToString JNaN = Returns ''NaN''"
| "ToString (JStr s) = Returns s"
| "ToString (JArr xs) = join_elems xs"
| "ToString (JObj ps) =
     (if has_prop ''toString'' ps then Throws TypeError else Returns ''[object Object]'')"
| "join_elems [] = Returns []"
| "join_elems (x # xs) =
     (case (if x = JNull then Returns [] else ToString x) of
        Returns a \<Rightarrow>
          if xs = [] then Returns a
          else (case join_elems xs of
                  Returns b \<Rightarrow> Returns (a @ '','' @ b)
                | Throws err \<Rightarrow> Throws err
                | Unrepresented \<Rightarrow> Unrepresented)
      | Throws err \<Rightarrow> Throws err
      | Unrepresented \<Rightarrow> Unrepresented)"

text \<open>
  \<open>parseInt(x, 10)\<close>: the argument as a string, leading white space skipped, an optional
  sign, then the longest run of decimal digits; without a digit the result is \<open>NaN\<close>. The
  integer that the digits denote is returned as a number: it is that integer when its
  magnitude is at most \<open>2^53\<close>, and a rounded value, which is not represented, beyond.
\<close>

definition parse_int_string :: "string \<Rightarrow> jsval result" where
  "parse_int_string str =
     (let s = dropWhile is_space str;
          neg = (s \<noteq> [] \<and> hd s = CHR ''-'');
          t = (if s \<noteq> [] \<and> (hd s = CHR ''-'' \<or> hd s = CHR ''+'') then tl s else s);
          ds = takeWhile is_digit t
      in if ds = [] then Returns JNaN
         else if exact_double (int_of_digits ds)
           then Returns (JNum ((if neg then - 1 else 1) * int_of_digits ds) 0)
         else Unrepresented)"

definition parseInt :: "jsval \<Rightarrow> jsval result" where
  "parseInt x =
     (case ToString x of
        Returns str \<Rightarrow> parse_int_string str
      | Throws err \<Rightarrow> Throws err
      | Unrepresented \<Rightarrow> Unrepresented)"

section \<open>\<open>JSON.stringify\<close>\<close>

definition hex_digit :: "nat \<Rightarrow> char" where
  "hex_digit n = ''0123456789abcdef'' ! (n mod 16)"

definition quote_char :: "char \<Rightarrow> string" where
  "quote_char c =
     (if c = dquote then [bslash, dquote]
      else if c = bslash then [bslash, bslash]
      else if c = CHR 0x08 then [bslash, CHR ''b'']
      else if c = CHR 0x0C then [bslash, CHR ''f'']
      else if c = CHR 0x0A then [bslash, CHR ''n'']
      else if c = CHR 0x0D then [bslash, CHR ''r'']
      else if c = CHR 0x09 then [bslash, CHR ''t'']
      else if (of_char c :: nat) < 32
        then [bslash, CHR ''u'', CHR ''0'', CHR ''0'',
              hex_digit (of_char c div 16), hex_digit (of_char c)]
      else [c])"

definition quote_json :: "string \<Rightarrow> string" where
  "quote_json s = dquote # concat (map quote_char s) @ [dquote]"

fun JSON_stringify :: "jsval \<Rightarrow> string"
  and stringify_elems :: "jsval list \<Rightarrow> string"
  and stringify_props :: "(string \<times> jsval) list \<Rightarrow> string" where
  "JSON_stringify JNull = ''null''"
| "JSON_stringify (JBool b) = (if b then ''true'' else ''false'')"
| "JSON_stringify (JNum m e) = number_to_string m e"
| "JSON_stringify JNaN = ''null''"
| "JSON_stringify (JStr s) = quote_json s"
| "JSON_stringify (JArr xs) = ''['' @ stringify_elems xs @ '']''"
| "JSON_stringify (JObj ps) = ''{'' @ stringify_props ps @ ''}''"
| "stringify_elems [] = []"
| "stringify_elems (x # xs) =
     JSON_stringify x @ (if xs = [] then [] else '','' @ stringify_elems xs)"
| "stringify_props [] = []"
| "stringify_props (p # ps) =
     quote_json (fst p) @ '':'' @ JSON_stringify (snd p) @
     (if ps = [] then [] else '','' @ stringify_props ps)"

section \<open>\<open>JSON.parse\<close>\<close>

text \<open>
  The JSON grammar of the standard, by recursive descent; a text outside the grammar throws
  a \<open>SyntaxError\<close>. White space is tab, line feed, carriage return and space. Members are
  stored in order, a repeated key overwriting the earlier value. The reading ends in
  \<open>Unrepresented\<close> as soon as it meets a value that is not represented: an escape
  \<open>\uXXXX\<close> of a code unit above 255, or a numeral outside the decimals that stand for a
  number.
\<close>

definition json_ws :: "char \<Rightarrow> bool" where
  "json_ws c \<longleftrightarrow> c \<in> set [CHR 0x09, CHR 0x0A, CHR 0x0D, CHR 0x20]"

definition skip_ws :: "string \<Rightarrow> string" where
  "skip_ws s = dropWhile json_ws s"

definition hex_val :: "char \<Rightarrow> nat option" where
  "hex_val c =
     (if is_digit c then Some (of_char c - 48)
      else if c \<in> set ''abcdef'' then Some (of_char c - 87)
      else if c \<in> set ''ABCDEF'' then Some (of_char c - 55)
      else None)"

definition hex4 :: "string \<Rightarrow> nat option" where
  "hex4 s =
     (case map hex_val s of
        [Some a, Some b, Some c, Some d] \<Rightarrow> Some (((a * 16 + b) * 16 + c) * 16 + d)
      | _ \<Rightarrow> None)"

definition unescape :: "char \<Rightarrow> char option" where
  "unescape c =
     (if c = dquote \<or> c = bslash \<or> c = CHR ''/'' then Some c
      else if c = CHR ''b'' then Some (CHR 0x08)
      else if c = CHR ''f'' then Some (CHR 0x0C)
      else if c = CHR ''n'' then Some (CHR 0x0A)
      else if c = CHR ''r'' then Some (CHR 0x0D)
      else if c = CHR ''t'' then Some (CHR 0x09)
      else None)"

text \<open>The characters of a string literal after its opening quote, up to the closing one.\<close>

fun parse_chars :: "string \<Rightarrow> (string \<times> string) result" where
  "parse_chars [] = Throws SyntaxError"
| "parse_chars (c # cs) =
     (if c = dquote then Returns ([], cs)
      else if c = bslash then
        (case cs of
           [] \<Rightarrow> Throws SyntaxError
         | e # cs' \<Rightarrow>
             if e = CHR ''u'' then
               (case hex4 (take 4 cs') of
                  None \<Rightarrow> Throws SyntaxError
                | Some n \<Rightarrow>
                    if n < 256
                    then map_result (apfst ((#) (char_of n))) (parse_chars (drop 4 cs'))
                    else Unrepresented)
             else
               (case unescape e of
                  None \<Rightarrow> Throws SyntaxError
                | Some d \<Rightarrow> map_result (apfst ((#) d)) (parse_chars cs')))
      else if (of_char c :: nat) < 32 then Throws SyntaxError
      else map_result (apfst ((#) c)) (parse_chars cs))"

definition parse_frac :: "string \<Rightarrow> (string \<times> string) option" where
  "parse_frac s =
     (case s of
        [] \<Rightarrow> Some ([], s)
      | c # t \<Rightarrow>
          if c = CHR ''.''
          then (if takeWhile is_digit t = [] then None
                else Some (takeWhile is_digit t, dropWhile is_digit t))
          else Some ([], s))"

definition parse_exp :: "string \<Rightarrow> (int \<times> string) option" where
  "parse_exp s =
     (case s of
        [] \<Rightarrow> Some (0, s)
      | c # t \<Rightarrow>
          if c = CHR ''e'' \<or> c = CHR ''E'' then
            (let neg = (t \<noteq> [] \<and> hd t = CHR ''-'');
                 u = (if t \<noteq> [] \<and> (hd t = CHR ''-'' \<or> hd t = CHR ''+'') then tl t else t)
             in if takeWhile is_digit u = [] then None
                else Some ((if neg then - 1 else 1) * (int_of_digits (takeWhile is_digit u)),
                           dropWhile is_digit u))
          else Some (0, s))"

text \<open>
  The number that a numeral denotes, from its sign, its digits \<open>ds\<close> before and after the
  point taken together, and the power \<open>e\<close> of ten that the digits are to be multiplied by.
\<close>

definition number_value :: "bool \<Rightarrow> string \<Rightarrow> int \<Rightarrow> jsval result" where
  "number_value neg ds e =
     (if represented (int_of_digits ds) e
      then Returns (JNum ((if neg then - 1 else 1) * int_of_digits ds) e)
      else Unrepresented)"

definition parse_number :: "string \<Rightarrow> (jsval \<times> string) result" where
  "parse_number s =
     (let neg = (s \<noteq> [] \<and> hd s = CHR ''-'');
          s1 = (if neg then tl s else s);
          ip = takeWhile is_digit s1
      in if ip = [] \<or> (1 < length ip \<and> hd ip = CHR ''0'') then Throws SyntaxError
         else
           (case parse_frac (dropWhile is_digit s1) of
              None \<Rightarrow> Throws SyntaxError
            | Some (fp, s3) \<Rightarrow>
                (case parse_exp s3 of
                   None \<Rightarrow> Throws SyntaxError
                 | Some (ex, s4) \<Rightarrow>
                     map_result (\<lambda>v. (v, s4))
                       (number_value neg (ip @ fp) (ex - int (length fp))))))"

definition make_object :: "(string \<times> jsval) list \<Rightarrow> jsval" where
  "make_object members = JObj (fold (\<lambda>(k, v). set_prop k v) members [])"

lemma skip_ws_Cons:
  "skip_ws s = c # t \<Longrightarrow> length t < length s"
  using length_dropWhile_le [of json_ws s] by (simp add: skip_ws_def)

text \<open>
  The comparisons of lengths in \<open>parse_elems\<close> and \<open>parse_members\<close> carry the termination
  proof. They are true whenever they are reached, the rest of a parse being shorter than
  its input: \<open>parse_elems_unguarded\<close> and \<open>parse_members_unguarded\<close> below give the equations
  without them.
\<close>

function parse_value :: "string \<Rightarrow> (jsval \<times> string) result"
  and parse_elems :: "string \<Rightarrow> (jsval list \<times> string) result"
  and parse_members :: "string \<Rightarrow> ((string \<times> jsval) list \<times> string) result" where
  "parse_value s =
     (case skip_ws s of
        [] \<Rightarrow> Throws SyntaxError
      | c # t \<Rightarrow>
          if c = CHR ''{'' then
            (case skip_ws t of
               [] \<Rightarrow> Throws SyntaxError
             | d # r \<Rightarrow>
                 if d = CHR ''}'' then Returns (JObj [], r)
                 else map_result (apfst make_object) (parse_members t))
          else if c = CHR ''['' then
            (case skip_ws t of
               [] \<Rightarrow> Throws SyntaxError
             | d # r \<Rightarrow>
                 if d = CHR '']'' then Returns (JArr [], r)
                 else map_result (apfst JArr) (parse_elems t))
          else if c = dquote then map_result (apfst JStr) (parse_chars t)
          else if c = CHR ''-'' \<or> is_digit c then parse_number (c # t)
          else if take 4 (c # t) = ''true'' then Returns (JBool True, drop 4 (c # t))
          else if take 5 (c # t) = ''false'' then Returns (JBool False, drop 5 (c # t))
          else if take 4 (c # t) = ''null'' then Returns (JNull, drop 4 (c # t))
          else Throws SyntaxError)"
| "parse_elems s =
     (case parse_value s of
        Returns (v, r) \<Rightarrow>
          (case skip_ws r of
             [] \<Rightarrow> Throws SyntaxError
           | c # r' \<Rightarrow>
               if c = CHR '']'' then Returns ([v], r')
               else if c = CHR '','' \<and> length r' < length s then
                 (case parse_elems r' of
                    Returns (vs, r'') \<Rightarrow> Returns (v # vs, r'')
                  | Throws err \<Rightarrow> Throws err
                  | Unrepresented \<Rightarrow> Unrepresented)
               else Throws SyntaxError)
      | Throws err \<Rightarrow> Throws err
      | Unrepresented \<Rightarrow> Unrepresented)"
| "parse_members s =
     (case skip_ws s of
        [] \<Rightarrow> Throws SyntaxError
      | q # t \<Rightarrow>
          if q \<noteq> dquote then Throws SyntaxError
          else
            (case parse_chars t of
               Returns (k, r1) \<Rightarrow>
                 (case skip_ws r1 of
                    [] \<Rightarrow> Throws SyntaxError
                  | c # r2 \<Rightarrow>
                      if c = CHR '':'' \<and> length r2 < length s then
                        (case parse_value r2 of
                           Returns (v, r3) \<Rightarrow>
                             (case skip_ws r3 of
                                [] \<Rightarrow> Throws SyntaxError
                              | d # r4 \<Rightarrow>
                                  if d = CHR ''}'' then Returns ([(k, v)], r4)
                                  else if d = CHR '','' \<and> length r4 < length s then
                                    (case parse_members r4 of
                                       Returns (ps, r5) \<Rightarrow> Returns ((k, v) # ps, r5)
                                     | Throws err \<Rightarrow> Throws err
                                     | Unrepresented \<Rightarrow> Unrepresented)
                                  else Throws SyntaxError)
                         | Throws err \<Rightarrow> Throws err
                         | Unrepresented \<Rightarrow> Unrepresented)
                      else Throws SyntaxError)
             | Throws err \<Rightarrow> Throws err
             | Unrepresented \<Rightarrow> Unrepresented))"
  by pat_completeness auto
termination
  by (relation "measure (\<lambda>x. case x of
        Inl s \<Rightarrow> 2 * length s
      | Inr (Inl s) \<Rightarrow> 2 * length s + 1
      | Inr (Inr s) \<Rightarrow> 2 * length s + 1)")
    (auto dest: skip_ws_Cons)

declare parse_value.simps [simp del] parse_elems.simps [simp del] parse_members.simps [simp del]

definition JSON_parse :: "string \<Rightarrow> jsval result" where
  "JSON_parse text =
     (case parse_value text of
        Returns (v, r) \<Rightarrow> if skip_ws r = [] then Returns v else Throws SyntaxError
      | Throws err \<Rightarrow> Throws err
      | Unrepresented \<Rightarrow> Unrepresented)"

section \<open>The block rewriter\<close>

record mdx_attribute =
  attr_type :: string
  attr_name :: string
  attr_value :: string

record mdx_element =
  el_type :: string
  el_name :: string
  el_attributes :: "mdx_attribute list"
  el_children :: "unit list"

text \<open>The bag as the object that \<open>JSON.stringify\<close> receives.\<close>

definition bag_object :: "bag \<Rightarrow> jsval" where
  "bag_object b =
     JObj (map (\<lambda>(k, v). (k, case v of None \<Rightarrow> JNull | Some str \<Rightarrow> JStr str)) (entries b))"

definition toMDX :: "string \<Rightarrow> bag \<Rightarrow> mdx_element" where
  "toMDX code config =
     \<lparr>el_type = ''mdxJsxFlowElement'',
      el_name = ''Mermaid'',
      el_attributes =
        \<lparr>attr_type = ''mdxJsxAttribute'', attr_name = ''chart'', attr_value = trim code\<rparr> #
        (if 0 < length (entries config)
         then [\<lparr>attr_type = ''mdxJsxAttribute'', attr_name = ''config'',
                 attr_value = JSON_stringify (bag_object config)\<rparr>]
         else []),
      el_children = []\<rparr>"

text \<open>
  A node of the document tree: its \<open>type\<close>, the fields \<open>lang\<close>, \<open>meta\<close> and \<open>value\<close> of a code
  node, the fields \<open>name\<close> and \<open>attributes\<close> of an element, its children, and everything else it
  carries (position, data). A field that is absent, or \<open>null\<close>, is \<open>None\<close>.
\<close>

datatype 'a node =
  Node (node_type: string) (lang: "string option") (meta: "string option")
    (node_value: "string option") (node_name: "string option")
    (node_attributes: "mdx_attribute list option") (children: "'a node list option")
    (other: 'a)

text \<open>\<open>Object.assign(node, element)\<close>: the four fields of the element overwrite the node's.\<close>

fun Object_assign :: "'a node \<Rightarrow> mdx_element \<Rightarrow> 'a node" where
  "Object_assign (Node ty l m v nm at ch x) el =
     Node (el_type el) l m v (Some (el_name el)) (Some (el_attributes el)) (Some []) x"

text \<open>The callback of the traversal, for the target language \<open>target\<close>.\<close>

definition skips :: "string \<Rightarrow> 'a node \<Rightarrow> bool" where
  "skips target n \<longleftrightarrow>
     lang n \<noteq> Some target \<or> (case node_value n of None \<Rightarrow> True | Some v \<Rightarrow> \<not> truthy_str v)"

definition visitor :: "string \<Rightarrow> 'a node \<Rightarrow> 'a node" where
  "visitor target n =
     (if skips target n then n
      else Object_assign n
             (toMDX (case node_value n of None \<Rightarrow> [] | Some v \<Rightarrow> v)
                (attributes
                   (parseCodeBlockAttributes (case meta n of None \<Rightarrow> [] | Some m \<Rightarrow> m)))))"

text \<open>
  \<open>visit(tree, 'code', callback)\<close> walks the tree in document order, calls the callback on
  each node of type \<open>code\<close> and then goes through the children the node has after the call.
  A node that the callback has rewritten has the empty list of children.
\<close>

fun visit_code :: "string \<Rightarrow> 'a node \<Rightarrow> 'a node" where
  "visit_code target (Node ty l m v nm at ch x) =
     (if ty = ''code'' \<and> \<not> skips target (Node ty l m v nm at ch x)
      then visitor target (Node ty l m v nm at ch x)
      else Node ty l m v nm at (map_option (map (visit_code target)) ch) x)"

definition remarkMdxMermaid :: "string option \<Rightarrow> 'a node \<Rightarrow> 'a node" where
  "remarkMdxMermaid lang_option tree =
     visit_code (case lang_option of None \<Rightarrow> ''mermaid'' | Some l \<Rightarrow> l) tree"

text \<open>
  The node at a position of the tree, a position being the list of child indices from the
  root; the trees of the document format, in which a code node is a leaf; and the value of
  the first attribute of a given name.
\<close>

fun subnode :: "nat list \<Rightarrow> 'a node \<Rightarrow> 'a node option" where
  "subnode [] n = Some n"
| "subnode (i # p) n =
     (case children n of
        None \<Rightarrow> None
      | Some cs \<Rightarrow> if i < length cs then subnode p (cs ! i) else None)"

fun code_leaves :: "'a node \<Rightarrow> bool" where
  "code_leaves (Node ty l m v nm at ch x) \<longleftrightarrow>
     (ty = ''code'' \<longrightarrow> ch = None) \<and>
     (case ch of None \<Rightarrow> True | Some cs \<Rightarrow> list_all code_leaves cs)"

definition read_attribute :: "string \<Rightarrow> mdx_attribute list \<Rightarrow> string option" where
  "read_attribute name attrs = map_option attr_value (find (\<lambda>a. attr_name a = name) attrs)"

section \<open>The configuration resolver\<close>

text \<open>
  Reading one of the properties that the resolver asks for, from a value that is not
  \<open>null\<close>: an object gives its own property; no other value, and no built-in prototype, has
  a property of one of these names, so that the result is \<open>undefined\<close>.
\<close>

fun get :: "jsval \<Rightarrow> string \<Rightarrow> jsval option" where
  "get (JObj ps) k = get_prop ps k"
| "get _ k = None"

text \<open>The object spread \<open>{ ...v }\<close>: the own enumerable properties of \<open>v\<close>, copied in order.\<close>

definition spread :: "jsval \<Rightarrow> jsobject" where
  "spread v =
     (case v of
        JObj ps \<Rightarrow> fold (\<lambda>(k, x). set_prop k x) ps []
      | JArr xs \<Rightarrow> zip (map (\<lambda>i. digits_of_int (int i)) [0..<length xs]) xs
      | JStr str \<Rightarrow>
          zip (map (\<lambda>i. digits_of_int (int i)) [0..<length str]) (map (\<lambda>c. JStr [c]) str)
      | _ \<Rightarrow> [])"

text \<open>\<open>themeOverride ? { theme: themeOverride } : {}\<close>\<close>

definition theme_only :: "string option \<Rightarrow> jsobject" where
  "theme_only themeOverride =
     (case themeOverride of
        None \<Rightarrow> []
      | Some t \<Rightarrow> if truthy_str t then [(''theme'', JStr t)] else [])"

text \<open>
  The \<open>try\<close> block of the nested configuration: \<open>None\<close> when \<open>parsed.config\<close> is falsy or
  when \<open>JSON.parse(parsed.config)\<close> throws, which the \<open>catch\<close> swallows.
\<close>

definition nested_config :: "jsval \<Rightarrow> jsval option result" where
  "nested_config parsed =
     (case get parsed ''config'' of
        None \<Rightarrow> Returns None
      | Some c \<Rightarrow>
          if truthy (Some c)
          then (case ToString c of
                  Returns text \<Rightarrow>
                    (case JSON_parse text of
                       Returns nestedConfig \<Rightarrow> Returns (Some nestedConfig)
                     | Throws err \<Rightarrow> Returns None
                     | Unrepresented \<Rightarrow> Unrepresented)
                | Throws err \<Rightarrow> Returns None
                | Unrepresented \<Rightarrow> Unrepresented)
          else Returns None)"

definition nested_result :: "jsval \<Rightarrow> string option \<Rightarrow> jsval \<Rightarrow> jsobject" where
  "nested_result parsed themeOverride nestedConfig =
     (let result = spread nestedConfig;
          result = (case get parsed ''theme'' of
                      None \<Rightarrow> result
                    | Some t \<Rightarrow> if truthy (Some t) then set_prop ''theme'' t result else result)
      in case themeOverride of
           None \<Rightarrow> result
         | Some t \<Rightarrow> if truthy_str t then set_prop ''theme'' (JStr t) result else result)"

text \<open>\<open>if (parsed.k) options.k = parseInt(parsed.k, 10)\<close> and its two siblings.\<close>

definition collect_int :: "jsval \<Rightarrow> string \<Rightarrow> jsobject \<Rightarrow> jsobject result" where
  "collect_int parsed k options =
     (case get parsed k of
        None \<Rightarrow> Returns options
      | Some v \<Rightarrow>
          if truthy (Some v)
          then map_result (\<lambda>n. set_prop k n options) (parseInt v)
          else Returns options)"

definition collect_bool :: "jsval \<Rightarrow> string \<Rightarrow> jsobject \<Rightarrow> jsobject" where
  "collect_bool parsed k options =
     (case get parsed k of
        None \<Rightarrow> options
      | Some v \<Rightarrow>
          if truthy (Some v) then set_prop k (JBool (v = JStr ''true'')) options else options)"

definition collect_string :: "jsval \<Rightarrow> string \<Rightarrow> jsobject \<Rightarrow> jsobject" where
  "collect_string parsed k options =
     (case get parsed k of
        None \<Rightarrow> options
      | Some v \<Rightarrow> if truthy (Some v) then set_prop k v options else options)"

text \<open>\<open>if (Object.keys(options).length > 0) config.family = options\<close>\<close>

definition attach :: "string \<Rightarrow> jsobject \<Rightarrow> jsobject \<Rightarrow> jsobject" where
  "attach family options config =
     (if 0 < length options then set_prop family (JObj options) config else config)"

definition flat_theme :: "jsval \<Rightarrow> string option \<Rightarrow> jsobject" where
  "flat_theme parsed themeOverride =
     (case get parsed ''theme'' of
        None \<Rightarrow> theme_only themeOverride
      | Some t \<Rightarrow> if truthy (Some t) then [(''theme'', t)] else theme_only themeOverride)"

text \<open>
  The flat attributes, statement by statement; the first call of \<open>parseInt\<close> that does not
  return ends the resolution.
\<close>

definition flat_config :: "jsval \<Rightarrow> string option \<Rightarrow> jsobject result" where
  "flat_config parsed themeOverride =
     (case collect_int parsed ''rowHeight'' [] of
        Throws err \<Rightarrow> Throws err
      | Unrepresented \<Rightarrow> Unrepresented
      | Returns p1 \<Rightarrow>
     (case collect_int parsed ''bitsPerRow'' p1 of
        Throws err \<Rightarrow> Throws err
      | Unrepresented \<Rightarrow> Unrepresented
      | Returns p2 \<Rightarrow>
     (case collect_int parsed ''nodeSpacing'' [] of
        Throws err \<Rightarrow> Throws err
      | Unrepresented \<Rightarrow> Unrepresented
      | Returns f1 \<Rightarrow>
     (case collect_int parsed ''rankSpacing'' f1 of
        Throws err \<Rightarrow> Throws err
      | Unrepresented \<Rightarrow> Unrepresented
      | Returns f2 \<Rightarrow>
          Returns (attach ''sequence''
                 (collect_string parsed ''messageAlign'' (collect_bool parsed ''mirrorActors'' []))
              (attach ''flowchart'' (collect_string parsed ''curve'' f2)
              (attach ''packet'' (collect_bool parsed ''showBits'' p2)
              (flat_theme parsed themeOverride))))))))"

text \<open>
  \<open>buildMermaidConfig\<close>. The \<open>catch\<close> of the first \<open>try\<close> block takes every error of
  \<open>JSON.parse\<close>. The first property read, \<open>parsed.config\<close>, throws a \<open>TypeError\<close> when
  \<open>JSON.parse\<close> has returned \<open>null\<close>; it stands outside the \<open>try\<close> blocks.
\<close>

definition buildMermaidConfig :: "string option \<Rightarrow> string option \<Rightarrow> jsobject result" where
  "buildMermaidConfig configStr themeOverride =
     (case configStr of
        None \<Rightarrow> Returns (theme_only themeOverride)
      | Some text \<Rightarrow>
          if \<not> truthy_str text then Returns (theme_only themeOverride)
          else
            (case JSON_parse text of
               Throws err \<Rightarrow> Returns (theme_only themeOverride)
             | Unrepresented \<Rightarrow> Unrepresented
             | Returns parsed \<Rightarrow>
                 if parsed = JNull then Throws TypeError
                 else
                   (case nested_config parsed of
                      Returns (Some nestedConfig) \<Rightarrow>
                        Returns (nested_result parsed themeOverride nestedConfig)
                    | Returns None \<Rightarrow> flat_config parsed themeOverride
                    | Throws err \<Rightarrow> Throws err
                    | Unrepresented \<Rightarrow> Unrepresented)))"

section \<open>The resolver in the words of the specification\<close>

text \<open>
  The flat attributes as the specification describes their resolution, to be compared
  with \<open>buildMermaidConfig\<close>. A field counts when its value is a string that is not empty;
  integer fields are parsed in base 10, boolean fields are true for the string \<open>true\<close>,
  the other fields pass through; a family is attached when it has a field.
\<close>

fun attribute_value :: "jsval \<Rightarrow> bool" where
  "attribute_value JNull = True"
| "attribute_value (JStr str) = True"
| "attribute_value _ = False"

definition flat_bag :: "jsobject \<Rightarrow> bool" where
  "flat_bag ps \<longleftrightarrow> list_all (\<lambda>(k, v). attribute_value v) ps"

definition string_field :: "jsobject \<Rightarrow> string \<Rightarrow> string option" where
  "string_field ps k =
     (case get_prop ps k of
        Some (JStr str) \<Rightarrow> if str = [] then None else Some str
      | _ \<Rightarrow> None)"

text \<open>
  The value of a string of digits in base 10: the digit at place \<open>i\<close> from the left, of \<open>n\<close>
  digits, counts \<open>10^(n - 1 - i)\<close> times.
\<close>

definition decimal_value :: "string \<Rightarrow> int" where
  "decimal_value ds =
     (\<Sum>i \<leftarrow> [0..<length ds]. digit_val (ds ! i) * 10 ^ (length ds - Suc i))"

text \<open>
  A string as an integer: white space at its head does not count, a sign may come next,
  and the digits that follow are read in base 10 up to the first other character. A string
  without a digit at that place is not numeric and gives the not-a-number value.
\<close>

definition spec_integer :: "string \<Rightarrow> jsval" where
  "spec_integer str =
     (case dropWhile is_space str of
        [] \<Rightarrow> JNaN
      | c # t \<Rightarrow>
          if c = CHR ''-'' then
            (if takeWhile is_digit t = [] then JNaN
             else JNum (- decimal_value (takeWhile is_digit t)) 0)
          else if c = CHR ''+'' then
            (if takeWhile is_digit t = [] then JNaN
             else JNum (decimal_value (takeWhile is_digit t)) 0)
          else
            (if takeWhile is_digit (c # t) = [] then JNaN
             else JNum (decimal_value (takeWhile is_digit (c # t))) 0))"

text \<open>The integers that the numbers of the host language hold without rounding.\<close>

fun held_exactly :: "jsval \<Rightarrow> bool" where
  "held_exactly (JNum m e) = (e = 0 \<and> exact_double m)"
| "held_exactly _ = True"

definition integer_fields :: "string list" where
  "integer_fields = [''rowHeight'', ''bitsPerRow'', ''nodeSpacing'', ''rankSpacing'']"

definition integers_held :: "jsobject \<Rightarrow> bool" where
  "integers_held ps \<longleftrightarrow>
     list_all (\<lambda>k. case string_field ps k of
                     None \<Rightarrow> True
                   | Some str \<Rightarrow> held_exactly (spec_integer str)) integer_fields"

definition spec_int_field :: "jsobject \<Rightarrow> string \<Rightarrow> jsobject" where
  "spec_int_field ps k =
     (case string_field ps k of None \<Rightarrow> [] | Some str \<Rightarrow> [(k, spec_integer str)])"

definition spec_bool_field :: "jsobject \<Rightarrow> string \<Rightarrow> jsobject" where
  "spec_bool_field ps k =
     (case string_field ps k of None \<Rightarrow> [] | Some str \<Rightarrow> [(k, JBool (str = ''true''))])"

definition spec_text_field :: "jsobject \<Rightarrow> string \<Rightarrow> jsobject" where
  "spec_text_field ps k =
     (case string_field ps k of None \<Rightarrow> [] | Some str \<Rightarrow> [(k, JStr str)])"

definition spec_group :: "string \<Rightarrow> jsobject \<Rightarrow> jsobject" where
  "spec_group family fs = (if fs = [] then [] else [(family, JObj fs)])"

definition spec_theme :: "jsobject \<Rightarrow> string option \<Rightarrow> jsobject" where
  "spec_theme ps themeOverride =
     (case string_field ps ''theme'' of
        Some t \<Rightarrow> [(''theme'', JStr t)]
      | None \<Rightarrow> theme_only themeOverride)"

definition spec_flat :: "jsobject \<Rightarrow> string option \<Rightarrow> jsobject" where
  "spec_flat ps themeOverride =
     spec_theme ps themeOverride @
     spec_group ''packet''
       (spec_int_field ps ''rowHeight'' @ spec_int_field ps ''bitsPerRow'' @
        spec_bool_field ps ''showBits'') @
     spec_group ''flowchart''
       (spec_int_field ps ''nodeSpacing'' @ spec_int_field ps ''rankSpacing'' @
        spec_text_field ps ''curve'') @
     spec_group ''sequence''
       (spec_bool_field ps ''mirrorActors'' @ spec_text_field ps ''messageAlign'')"

definition recognized :: "string list" where
  "recognized =
     [''theme'', ''rowHeight'', ''bitsPerRow'', ''showBits'', ''nodeSpacing'', ''rankSpacing'',
      ''curve'', ''mirrorActors'', ''messageAlign'']"

text \<open>
  The serialized configs without a nested config: the absent one, the ones that do not
  parse, and the ones that parse to a value whose field \<open>config\<close> is absent, falsy or not a
  JSON text.
\<close>

definition no_nested_config :: "string option \<Rightarrow> bool" where
  "no_nested_config configStr \<longleftrightarrow>
     (case configStr of
        None \<Rightarrow> True
      | Some text \<Rightarrow>
          (case JSON_parse text of
             Returns parsed \<Rightarrow> nested_config parsed = Returns None
           | Throws err \<Rightarrow> True
           | Unrepresented \<Rightarrow> False))"

text \<open>
  The theme that the serialized config supplies as a flat attribute: the value of \<open>theme\<close>,
  when it is truthy, of a config that parses.
\<close>

definition flat_attribute_theme :: "string option \<Rightarrow> jsval option" where
  "flat_attribute_theme configStr =
     (case configStr of
        None \<Rightarrow> None
      | Some text \<Rightarrow>
          (case JSON_parse text of
             Returns parsed \<Rightarrow> if truthy (get parsed ''theme'') then get parsed ''theme'' else None
           | Throws err \<Rightarrow> None
           | Unrepresented \<Rightarrow> None))"

text \<open>
  The theme after the overlays of the nested path: the override when it is given and not
  empty, else the top-level theme of the outer object when it is truthy, else the theme of
  the nested config.
\<close>

definition overlaid_theme :: "jsval option \<Rightarrow> jsval option \<Rightarrow> string option \<Rightarrow> jsval option" where
  "overlaid_theme nested_theme outer_theme override =
     (case override of
        Some t \<Rightarrow>
          if truthy_str t then Some (JStr t)
          else if truthy outer_theme then outer_theme else nested_theme
      | None \<Rightarrow> if truthy outer_theme then outer_theme else nested_theme)"

section \<open>The promise cache\<close>

text \<open>
  A promise is known by its identity. The module keeps one map from keys to promises; the
  function \<open>setPromise\<close> acts on the world outside the module and returns a promise. The
  field \<open>started\<close> is a record of the keys for which \<open>setPromise\<close> has been called, kept for
  the statements about call counts; the program does not read it.
\<close>

type_synonym promise = nat

record 'w runtime =
  cache :: "string \<rightharpoonup> promise"
  world :: 'w
  started :: "string list"

definition cachePromise ::
  "string \<Rightarrow> ('w \<Rightarrow> promise \<times> 'w) \<Rightarrow> 'w runtime \<Rightarrow> promise \<times> 'w runtime" where
  "cachePromise key setPromise s =
     (case cache s key of
        Some cached \<Rightarrow> (cached, s)
      | None \<Rightarrow>
          (case setPromise (world s) of
             (promise, w) \<Rightarrow>
               (promise,
                s\<lparr>cache := (cache s)(key \<mapsto> promise), world := w, started := started s @ [key]\<rparr>)))"

text \<open>A sequence of calls, each with its key and its function, from first to last.\<close>

fun cache_calls ::
  "(string \<times> ('w \<Rightarrow> promise \<times> 'w)) list \<Rightarrow> 'w runtime \<Rightarrow> 'w runtime" where
  "cache_calls [] s = s"
| "cache_calls ((key, setPromise) # calls) s =
     cache_calls calls (snd (cachePromise key setPromise s))"

definition initial_runtime :: "'w \<Rightarrow> 'w runtime" where
  "initial_runtime w = \<lparr>cache = Map.empty, world = w, started = []\<rparr>"

text \<open>The invariant of the cache: a key is started once, and a started key is cached.\<close>

definition started_once :: "'w runtime \<Rightarrow> bool" where
  "started_once s \<longleftrightarrow> distinct (started s) \<and> (\<forall>k \<in> set (started s). cache s k \<noteq> None)"

section \<open>The diagram renderer\<close>

text \<open>
  The engine and the promises live outside the module: every promise has a state; the
  engine records the module loads and the calls of \<open>render\<close> with their identifier, their
  source and the promise returned. A new promise is pending.
\<close>

datatype promise_state = Pending | Fulfilled | Rejected

record engine =
  next_promise :: promise
  state_of :: "promise \<Rightarrow> promise_state"
  loads :: "promise list"
  initialized :: bool
  render_calls :: "(string \<times> string \<times> promise) list"

definition import_mermaid :: "engine \<Rightarrow> promise \<times> engine" where
  "import_mermaid w =
     (next_promise w,
      w\<lparr>next_promise := Suc (next_promise w),
        state_of := (state_of w)(next_promise w := Pending),
        loads := loads w @ [next_promise w]\<rparr>)"

definition mermaid_render :: "string \<Rightarrow> string \<Rightarrow> engine \<Rightarrow> promise \<times> engine" where
  "mermaid_render uid source w =
     (next_promise w,
      w\<lparr>next_promise := Suc (next_promise w),
        state_of := (state_of w)(next_promise w := Pending),
        render_calls := render_calls w @ [(uid, source, next_promise w)]\<rparr>)"

definition mermaid_initialize :: "engine runtime \<Rightarrow> engine runtime" where
  "mermaid_initialize s = s\<lparr>world := (world s)\<lparr>initialized := True\<rparr>\<rparr>"

record content_props =
  chart :: string
  themeOverride :: "string option"
  themeCSS :: string
  config :: "string option"
  exportable :: bool

text \<open>\<open>themeOverride ?? (systemTheme === 'dark' ? 'dark' : 'default')\<close>\<close>

definition resolvedTheme :: "string option \<Rightarrow> string option \<Rightarrow> string" where
  "resolvedTheme override systemTheme =
     (case override of
        Some t \<Rightarrow> t
      | None \<Rightarrow> if systemTheme = Some ''dark'' then ''dark'' else ''default'')"

text \<open>\<open>buildMermaidConfig(configStr, resolvedTheme)\<close>, then \<open>diagramConfig.themeCSS = themeCSS\<close>.\<close>

definition diagramConfig :: "content_props \<Rightarrow> string option \<Rightarrow> jsobject result" where
  "diagramConfig props systemTheme =
     map_result (set_prop ''themeCSS'' (JStr (themeCSS props)))
       (buildMermaidConfig (config props)
          (Some (resolvedTheme (themeOverride props) systemTheme)))"

text \<open>\<open>chart.replaceAll('\\n', '\n')\<close>: a backslash followed by \<open>n\<close> becomes a line feed.\<close>

fun unescape_newlines :: "string \<Rightarrow> string" where
  "unescape_newlines (b # n # t) =
     (if b = bslash \<and> n = CHR ''n'' then CHR 0x0A # unescape_newlines t
      else b # unescape_newlines (n # t))"
| "unescape_newlines t = t"

definition fullChart :: "jsobject \<Rightarrow> string \<Rightarrow> string" where
  "fullChart c source =
     ''%%{init: '' @ JSON_stringify (JObj c) @ ''}%%'' @ [CHR 0x0A] @ unescape_newlines source"

text \<open>The key of a rendered diagram: \<^verbatim>\<open>`${chart}-${resolvedTheme}-${configStr ?? ''}`\<close>\<close>

definition render_key :: "string \<Rightarrow> string \<Rightarrow> string option \<Rightarrow> string" where
  "render_key source theme configStr =
     source @ ''-'' @ theme @ ''-'' @ (case configStr of None \<Rightarrow> [] | Some c \<Rightarrow> c)"

text \<open>
  One pass of \<open>MermaidContent\<close>. \<open>use\<close> suspends the pass on a pending promise and throws
  on a rejected one; on a fulfilled promise the pass goes on. The pass ends with the
  promise whose markup is mounted. A pass whose config is not represented is not described:
  it is \<open>None\<close>.
\<close>

datatype outcome = Not_mounted | Suspended | Thrown js_error | Failed promise | Mounted promise

definition MermaidContent ::
  "string \<Rightarrow> string option \<Rightarrow> content_props \<Rightarrow> engine runtime \<Rightarrow>
     (outcome \<times> engine runtime) option" where
  "MermaidContent uid systemTheme props s =
     (case cachePromise ''mermaid'' import_mermaid s of
        (module, s1) \<Rightarrow>
          (case state_of (world s1) module of
             Pending \<Rightarrow> Some (Suspended, s1)
           | Rejected \<Rightarrow> Some (Failed module, s1)
           | Fulfilled \<Rightarrow>
               (case diagramConfig props systemTheme of
                  Throws err \<Rightarrow> Some (Thrown err, mermaid_initialize s1)
                | Unrepresented \<Rightarrow> None
                | Returns c \<Rightarrow>
                    (case cachePromise
                            (render_key (chart props)
                               (resolvedTheme (themeOverride props) systemTheme) (config props))
                            (mermaid_render uid (fullChart c (chart props)))
                            (mermaid_initialize s1) of
                       (p, s2) \<Rightarrow>
                         (case state_of (world s2) p of
                            Pending \<Rightarrow> Some (Suspended, s2)
                          | Rejected \<Rightarrow> Some (Failed p, s2)
                          | Fulfilled \<Rightarrow> Some (Mounted p, s2))))))"

text \<open>
  The component \<open>Mermaid\<close>: nothing before it is mounted; then \<open>MermaidContent\<close> with the
  \<open>theme\<close> property, one of four names, as the override.
\<close>

datatype theme_name = Theme_default | Theme_dark | Theme_neutral | Theme_forest

fun theme_string :: "theme_name \<Rightarrow> string" where
  "theme_string Theme_default = ''default''"
| "theme_string Theme_dark = ''dark''"
| "theme_string Theme_neutral = ''neutral''"
| "theme_string Theme_forest = ''forest''"

definition content_of ::
  "string \<Rightarrow> theme_name option \<Rightarrow> string option \<Rightarrow> string option \<Rightarrow> string option \<Rightarrow>
     content_props" where
  "content_of source theme css configStr exportable_prop =
     \<lparr>chart = source,
      themeOverride = map_option theme_string theme,
      themeCSS = (case css of None \<Rightarrow> ''margin: 1.5rem auto 0;'' | Some c \<Rightarrow> c),
      config = configStr,
      exportable = (exportable_prop = Some ''true'')\<rparr>"

definition Mermaid ::
  "bool \<Rightarrow> string \<Rightarrow> string option \<Rightarrow> string \<Rightarrow> theme_name option \<Rightarrow> string option \<Rightarrow>
     string option \<Rightarrow> string option \<Rightarrow> engine runtime \<Rightarrow>
     (outcome \<times> engine runtime) option" where
  "Mermaid mounted uid systemTheme source theme css configStr exportable_prop s =
     (if \<not> mounted then Some (Not_mounted, s)
      else MermaidContent uid systemTheme
             (content_of source theme css configStr exportable_prop) s)"

text \<open>
  A runtime in which the engine module has been loaded, and nothing rendered yet: promise
  \<open>0\<close> is the module's and is fulfilled.
\<close>

definition loaded_runtime :: "engine runtime" where
  "loaded_runtime =
     \<lparr>cache = [''mermaid'' \<mapsto> 0],
      world = \<lparr>next_promise = 1, state_of = (\<lambda>p. if p = 0 then Fulfilled else Pending),
                loads = [0], initialized = True, render_calls = []\<rparr>,
      started = [''mermaid'']\<rparr>"

text \<open>Properties of a diagram \<open>graph TD\<close> with a given CSS and serialized config.\<close>

definition sample_props :: "string \<Rightarrow> string option \<Rightarrow> content_props" where
  "sample_props css configStr =
     \<lparr>chart = ''graph TD'', themeOverride = None, themeCSS = css, config = configStr,
      exportable = False\<rparr>"
section \<open>Properties of the JSON reader\<close>

lemma map_result_Returns:
  "map_result f x = Returns y \<longleftrightarrow> (\<exists>z. x = Returns z \<and> f z = y)"
  by (cases x) auto

text \<open>What is left after a value is shorter than the input.\<close>

lemma parse_chars_shorter:
  "parse_chars s = Returns (d, r) \<Longrightarrow> length r < length s"
proof (induction s arbitrary: d rule: parse_chars.induct)
  case 1
  then show ?case by simp
next
  case (2 c cs)
  show ?case
  proof (cases "c = dquote")
    case True
    with "2.prems" show ?thesis by simp
  next
    case nq: False
    show ?thesis
    proof (cases "c = bslash")
      case False
      with nq "2.prems" obtain d' where "parse_chars cs = Returns (d', r)"
        by (auto simp: map_result_Returns split: if_splits)
      with "2.IH"(3) nq False "2.prems" have "length r < length cs"
        by (auto split: if_splits)
      then show ?thesis by simp
    next
      case True
      with nq "2.prems" obtain e cs' where cs: "cs = e # cs'"
        by (cases cs) auto
      show ?thesis
      proof (cases "e = CHR ''u''")
        case u: True
        with nq True cs "2.prems" obtain n d' where n: "hex4 (take 4 cs') = Some n" "n < 256"
          and p: "parse_chars (drop 4 cs') = Returns (d', r)"
          by (auto simp: map_result_Returns split: option.splits if_splits)
        from "2.IH"(1) [OF nq True cs u n(1) n(2) p] have "length r < length (drop 4 cs')" .
        then show ?thesis using cs by simp
      next
        case nu: False
        with nq True cs "2.prems" obtain x d' where x: "unescape e = Some x"
          and p: "parse_chars cs' = Returns (d', r)"
          by (auto simp: map_result_Returns split: option.splits if_splits)
        from "2.IH"(2) [OF nq True cs nu x p] have "length r < length cs'" .
        then show ?thesis using cs by simp
      qed
    qed
  qed
qed

lemma parse_frac_le: "parse_frac s = Some (f, r) \<Longrightarrow> length r \<le> length s"
  using length_dropWhile_le [of is_digit "tl s"]
  by (cases s) (auto simp: parse_frac_def split: if_splits)

lemma parse_exp_le: "parse_exp s = Some (x, r) \<Longrightarrow> length r \<le> length s"
proof (cases s)
  case Nil
  assume "parse_exp s = Some (x, r)"
  with Nil show ?thesis by (simp add: parse_exp_def)
next
  case (Cons c t)
  assume a: "parse_exp s = Some (x, r)"
  show ?thesis
  proof (cases "c = CHR ''e'' \<or> c = CHR ''E''")
    case False
    with a Cons show ?thesis by (auto simp: parse_exp_def)
  next
    case True
    let ?u = "if t \<noteq> [] \<and> (hd t = CHR ''-'' \<or> hd t = CHR ''+'') then tl t else t"
    from a Cons True have "r = dropWhile is_digit ?u"
      by (auto simp: parse_exp_def Let_def split: if_splits)
    moreover have "length (dropWhile is_digit ?u) \<le> length ?u" by (rule length_dropWhile_le)
    moreover have "length ?u \<le> length t" by simp
    ultimately show ?thesis using Cons by simp
  qed
qed

lemma parse_number_shorter:
  assumes "parse_number s = Returns (v, r)"
  shows "length r < length s"
proof -
  let ?s1 = "if s \<noteq> [] \<and> hd s = CHR ''-'' then tl s else s"
  from assms have ip: "takeWhile is_digit ?s1 \<noteq> []"
    by (auto simp: parse_number_def Let_def split: if_splits)
  from assms obtain fp s3 x where f: "parse_frac (dropWhile is_digit ?s1) = Some (fp, s3)"
    and e: "parse_exp s3 = Some (x, r)"
    by (auto simp: parse_number_def Let_def map_result_Returns split: if_splits option.splits)
  have "length (takeWhile is_digit ?s1) + length (dropWhile is_digit ?s1) = length ?s1"
    by (metis length_append takeWhile_dropWhile_id)
  with ip have "length (dropWhile is_digit ?s1) < length ?s1"
    by (cases "takeWhile is_digit ?s1") auto
  moreover have "length ?s1 \<le> length s" by simp
  moreover have "length s3 \<le> length (dropWhile is_digit ?s1)" using f by (rule parse_frac_le)
  moreover have "length r \<le> length s3" using e by (rule parse_exp_le)
  ultimately show ?thesis by linarith
qed

lemma parse_shorter:
  "parse_value s = Returns (v, r) \<Longrightarrow> length r < length s"
  "parse_elems s1 = Returns (vs, r1) \<Longrightarrow> length r1 < length s1"
  "parse_members s2 = Returns (ms, r2) \<Longrightarrow> length r2 < length s2"
proof (induction s and s1 and s2 arbitrary: v r and vs r1 and ms r2
    rule: parse_value_parse_elems_parse_members.induct)
  case (1 s)
  from "1.prems" obtain c t where sk: "skip_ws s = c # t"
    by (subst (asm) parse_value.simps) (auto split: list.splits)
  have t: "length t < length s" using sk by (rule skip_ws_Cons)
  show ?case
  proof (cases "c = CHR ''{''")
    case True
    from "1.prems" sk True obtain d r' where st: "skip_ws t = d # r'"
      by (subst (asm) parse_value.simps) (auto split: list.splits)
    show ?thesis
    proof (cases "d = CHR ''}''")
      case d: True
      with "1.prems" sk True st have "r = r'"
        by (subst (asm) parse_value.simps) auto
      moreover have "length r' < length t" using st by (rule skip_ws_Cons)
      ultimately show ?thesis using t by simp
    next
      case d: False
      with "1.prems" sk True st obtain ms where "parse_members t = Returns (ms, r)"
        by (subst (asm) parse_value.simps) (auto simp: map_result_Returns)
      from "1.IH"(1) [OF sk True st d this] show ?thesis using t by simp
    qed
  next
    case nb: False
    show ?thesis
    proof (cases "c = CHR ''[''")
      case True
      from "1.prems" sk nb True obtain d r' where st: "skip_ws t = d # r'"
        by (subst (asm) parse_value.simps) (auto split: list.splits)
      show ?thesis
      proof (cases "d = CHR '']''")
        case d: True
        with "1.prems" sk nb True st have "r = r'"
          by (subst (asm) parse_value.simps) auto
        moreover have "length r' < length t" using st by (rule skip_ws_Cons)
        ultimately show ?thesis using t by simp
      next
        case d: False
        with "1.prems" sk nb True st obtain vs where "parse_elems t = Returns (vs, r)"
          by (subst (asm) parse_value.simps) (auto simp: map_result_Returns)
        from "1.IH"(2) [OF sk nb True st d this] show ?thesis using t by simp
      qed
    next
      case na: False
      from "1.prems" sk nb na have
        "(\<exists>d. parse_chars t = Returns (d, r)) \<or> (\<exists>n. parse_number (c # t) = Returns (n, r)) \<or>
         r = drop 4 (c # t) \<or> r = drop 5 (c # t)"
        by (subst (asm) parse_value.simps) (auto simp: map_result_Returns split: if_splits)
      then show ?thesis
        using parse_chars_shorter [of t _ r] parse_number_shorter [of "c # t" _ r] t
        by auto
    qed
  qed
next
  case (2 s)
  from "2.prems" obtain v r where pv: "parse_value s = Returns (v, r)"
    by (subst (asm) parse_elems.simps) (auto split: result.splits)
  have r: "length r < length s" using pv by (rule "2.IH"(1))
  from "2.prems" pv obtain c r' where sk: "skip_ws r = c # r'"
    by (subst (asm) parse_elems.simps) (auto split: list.splits)
  have r': "length r' < length r" using sk by (rule skip_ws_Cons)
  show ?case
  proof (cases "c = CHR '']''")
    case True
    with "2.prems" pv sk have "r1 = r'"
      by (subst (asm) parse_elems.simps) auto
    then show ?thesis using r r' by simp
  next
    case False
    with "2.prems" pv sk obtain ws where c: "c = CHR '',''" and g: "length r' < length s"
      and pe: "parse_elems r' = Returns (ws, r1)"
      by (subst (asm) parse_elems.simps) (auto split: if_splits result.splits)
    from "2.IH"(2) [OF pv refl sk False _ pe] c g have "length r1 < length r'" by simp
    then show ?thesis using g by simp
  qed
next
  case (3 s)
  from "3.prems" obtain q t where sk: "skip_ws s = q # t"
    by (subst (asm) parse_members.simps) (auto split: list.splits)
  from "3.prems" sk have q: "\<not> q \<noteq> dquote"
    by (subst (asm) parse_members.simps) (auto split: if_splits)
  from "3.prems" sk q obtain k ra where pc: "parse_chars t = Returns (k, ra)"
    by (subst (asm) parse_members.simps) (auto split: result.splits)
  from "3.prems" sk q pc obtain c rb where sa: "skip_ws ra = c # rb"
    by (subst (asm) parse_members.simps) (auto split: list.splits)
  from "3.prems" sk q pc sa have g: "c = CHR '':'' \<and> length rb < length s"
    by (subst (asm) parse_members.simps) (auto split: if_splits)
  from "3.prems" sk q pc sa g obtain v rc where pv: "parse_value rb = Returns (v, rc)"
    by (subst (asm) parse_members.simps) (auto split: result.splits)
  have rc: "length rc < length rb" using pv by (rule "3.IH"(1) [OF sk q pc refl sa g])
  from "3.prems" sk q pc sa g pv obtain d rd where sc: "skip_ws rc = d # rd"
    by (subst (asm) parse_members.simps) (auto split: list.splits)
  have rd: "length rd < length rc" using sc by (rule skip_ws_Cons)
  show ?case
  proof (cases "d = CHR ''}''")
    case True
    with "3.prems" sk q pc sa g pv sc have "r2 = rd"
      by (subst (asm) parse_members.simps) auto
    then show ?thesis using g rc rd by simp
  next
    case False
    with "3.prems" sk q pc sa g pv sc obtain ps where g2: "d = CHR '','' \<and> length rd < length s"
      and pm: "parse_members rd = Returns (ps, r2)"
      by (subst (asm) parse_members.simps) (auto split: if_splits result.splits)
    have "length r2 < length rd"
      using pm by (rule "3.IH"(2) [OF sk q pc refl sa g pv refl sc False g2])
    then show ?thesis using g2 by simp
  qed
qed

text \<open>
  The two functions satisfy their equations without the comparisons of lengths: the
  comparisons never fail.
\<close>

lemma parse_elems_unguarded:
  "parse_elems s =
     (case parse_value s of
        Returns (v, r) \<Rightarrow>
          (case skip_ws r of
             [] \<Rightarrow> Throws SyntaxError
           | c # r' \<Rightarrow>
               if c = CHR '']'' then Returns ([v], r')
               else if c = CHR '','' then
                 (case parse_elems r' of
                    Returns (vs, r'') \<Rightarrow> Returns (v # vs, r'')
                  | Throws err \<Rightarrow> Throws err
                  | Unrepresented \<Rightarrow> Unrepresented)
               else Throws SyntaxError)
      | Throws err \<Rightarrow> Throws err
      | Unrepresented \<Rightarrow> Unrepresented)"
proof -
  have "length r' < length s"
    if "parse_value s = Returns (v, r)" and "skip_ws r = c # r'" for v r c r'
    using parse_shorter(1) [OF that(1)] skip_ws_Cons [OF that(2)] by simp
  then show ?thesis
    by (subst parse_elems.simps) (auto split: result.splits list.splits)
qed

lemma parse_members_unguarded:
  "parse_members s =
     (case skip_ws s of
        [] \<Rightarrow> Throws SyntaxError
      | q # t \<Rightarrow>
          if q \<noteq> dquote then Throws SyntaxError
          else
            (case parse_chars t of
               Returns (k, r1) \<Rightarrow>
                 (case skip_ws r1 of
                    [] \<Rightarrow> Throws SyntaxError
                  | c # r2 \<Rightarrow>
                      if c = CHR '':'' then
                        (case parse_value r2 of
                           Returns (v, r3) \<Rightarrow>
                             (case skip_ws r3 of
                                [] \<Rightarrow> Throws SyntaxError
                              | d # r4 \<Rightarrow>
                                  if d = CHR ''}'' then Returns ([(k, v)], r4)
                                  else if d = CHR '','' then
                                    (case parse_members r4 of
                                       Returns (ps, r5) \<Rightarrow> Returns ((k, v) # ps, r5)
                                     | Throws err \<Rightarrow> Throws err
                                     | Unrepresented \<Rightarrow> Unrepresented)
                                  else Throws SyntaxError)
                         | Throws err \<Rightarrow> Throws err
                         | Unrepresented \<Rightarrow> Unrepresented)
                      else Throws SyntaxError)
             | Throws err \<Rightarrow> Throws err
             | Unrepresented \<Rightarrow> Unrepresented))"
proof -
  have a: "length r2 < length s"
    if "skip_ws s = q # t" and "parse_chars t = Returns (k, r1)" and "skip_ws r1 = c # r2"
    for q t k r1 c r2
    using skip_ws_Cons [OF that(1)] parse_chars_shorter [OF that(2)] skip_ws_Cons [OF that(3)]
    by simp
  have b: "length r4 < length s"
    if "skip_ws s = q # t" and "parse_chars t = Returns (k, r1)" and "skip_ws r1 = c # r2"
      and "parse_value r2 = Returns (v, r3)" and "skip_ws r3 = d # r4"
    for q t k r1 c r2 v r3 d r4
    using a [OF that(1,2,3)] parse_shorter(1) [OF that(4)] skip_ws_Cons [OF that(5)]
    by simp
  show ?thesis
    by (subst parse_members.simps) (auto split: result.splits list.splits simp: a b)
qed

section \<open>Properties of the promise cache\<close>

lemma cachePromise_hit:
  "cache s key = Some p \<Longrightarrow> cachePromise key f s = (p, s)"
  by (simp add: cachePromise_def)

lemma cachePromise_keeps:
  "cache s key = Some p \<Longrightarrow> cache (snd (cachePromise k f s)) key = Some p"
  by (auto simp: cachePromise_def split: option.splits prod.splits)

lemma cache_calls_keeps:
  "cache s key = Some p \<Longrightarrow> cache (cache_calls calls s) key = Some p"
proof (induction calls arbitrary: s)
  case Nil
  then show ?case by simp
next
  case (Cons call calls)
  obtain k f where call: "call = (k, f)" by (cases call)
  from Cons.prems have "cache (snd (cachePromise k f s)) key = Some p"
    by (rule cachePromise_keeps)
  then show ?case using Cons.IH call by simp
qed

lemma started_once_step:
  "started_once s \<Longrightarrow> started_once (snd (cachePromise k f s))"
  by (auto simp: started_once_def cachePromise_def split: option.splits prod.splits)

lemma started_once_calls:
  "started_once s \<Longrightarrow> started_once (cache_calls calls s)"
proof (induction calls arbitrary: s)
  case Nil
  then show ?case by simp
next
  case (Cons call calls)
  obtain k f where call: "call = (k, f)" by (cases call)
  show ?case using Cons.IH [OF started_once_step [OF Cons.prems, of k f]] call by simp
qed

lemma distinct_count_le_1: "distinct xs \<Longrightarrow> count_list xs x \<le> 1"
  by (induction xs) auto

text \<open>
  C2. Over any sequence of calls from the empty cache, the function \<open>setPromise\<close> is called
  at most once for every key. The first call with a key stores the promise it made, and
  every later call with that key, after any other calls, returns that same promise and
  changes nothing: neither the world nor the record of started computations moves, so
  the function given to it is not called.
\<close>

theorem cachePromise_at_most_once:
  fixes w :: 'w and s :: "'w runtime"
  shows
  "count_list (started (cache_calls calls (initial_runtime w))) key \<le> 1 \<and>
   (cache s key = None \<longrightarrow>
      fst (cachePromise key f s) = fst (f (world s)) \<and>
      cache (snd (cachePromise key f s)) key = Some (fst (f (world s))) \<and>
      started (snd (cachePromise key f s)) = started s @ [key] \<and>
      (\<forall>later g. cachePromise key g (cache_calls later (snd (cachePromise key f s))) =
         (fst (f (world s)), cache_calls later (snd (cachePromise key f s)))))"
proof (intro conjI impI allI)
  have "started_once (initial_runtime w)"
    by (simp add: started_once_def initial_runtime_def)
  then have "started_once (cache_calls calls (initial_runtime w))"
    by (rule started_once_calls)
  then have "distinct (started (cache_calls calls (initial_runtime w)))"
    by (simp add: started_once_def)
  then show "count_list (started (cache_calls calls (initial_runtime w))) key \<le> 1"
    by (rule distinct_count_le_1)
next
  assume miss: "cache s key = None"
  show "fst (cachePromise key f s) = fst (f (world s))"
    using miss by (simp add: cachePromise_def split: prod.splits)
  show stored: "cache (snd (cachePromise key f s)) key = Some (fst (f (world s)))"
    using miss by (simp add: cachePromise_def split: prod.splits)
  show "started (snd (cachePromise key f s)) = started s @ [key]"
    using miss by (simp add: cachePromise_def split: prod.splits)
  fix later :: "(string \<times> ('w \<Rightarrow> promise \<times> 'w)) list" and g
  show "cachePromise key g (cache_calls later (snd (cachePromise key f s))) =
         (fst (f (world s)), cache_calls later (snd (cachePromise key f s)))"
    by (rule cachePromise_hit [OF cache_calls_keeps [OF stored]])
qed

theorem cachePromise_at_most_once_witness:
  "cache (initial_runtime (0::nat)) ''mermaid'' = None \<and>
   count_list (started (cache_calls [(''mermaid'', \<lambda>n. (n, Suc n)), (''k'', \<lambda>n. (n, Suc n)),
       (''mermaid'', \<lambda>n. (n, Suc n))] (initial_runtime (0::nat)))) ''mermaid'' \<le> 1 \<and>
   fst (cachePromise ''mermaid'' (\<lambda>n. (n, Suc n)) (initial_runtime (0::nat))) = 0 \<and>
   cachePromise ''mermaid'' (\<lambda>n. (n + 7, Suc n))
     (cache_calls [(''k'', \<lambda>n. (n, Suc n))]
        (snd (cachePromise ''mermaid'' (\<lambda>n. (n, Suc n)) (initial_runtime (0::nat))))) =
     (0, cache_calls [(''k'', \<lambda>n. (n, Suc n))]
        (snd (cachePromise ''mermaid'' (\<lambda>n. (n, Suc n)) (initial_runtime (0::nat)))))"
proof -
  have miss: "cache (initial_runtime (0::nat)) ''mermaid'' = None"
    by (simp add: initial_runtime_def)
  note t = cachePromise_at_most_once [of "[(''mermaid'', \<lambda>n. (n, Suc n)), (''k'', \<lambda>n. (n, Suc n)),
       (''mermaid'', \<lambda>n. (n, Suc n))]" "0::nat" "''mermaid''" "initial_runtime (0::nat)" "\<lambda>n. (n, Suc n)"]
  from t miss have a: "fst (cachePromise ''mermaid'' (\<lambda>n. (n, Suc n)) (initial_runtime (0::nat))) = fst (0::nat, Suc 0)"
    by (simp add: initial_runtime_def)
  from t miss have b: "\<forall>later g. cachePromise ''mermaid'' g (cache_calls later (snd (cachePromise ''mermaid'' (\<lambda>n. (n, Suc n)) (initial_runtime (0::nat))))) =
         (fst (0::nat, Suc 0), cache_calls later (snd (cachePromise ''mermaid'' (\<lambda>n. (n, Suc n)) (initial_runtime (0::nat)))))"
    by (simp add: initial_runtime_def)
  from t have c: "count_list (started (cache_calls [(''mermaid'', \<lambda>n. (n, Suc n)), (''k'', \<lambda>n. (n, Suc n)),
       (''mermaid'', \<lambda>n. (n, Suc n))] (initial_runtime (0::nat)))) ''mermaid'' \<le> 1" by blast
  from b [THEN spec [where x = "[(''k'', \<lambda>n. (n, Suc n))]"],
          THEN spec [where x = "\<lambda>n. (n + 7, Suc n)"]]
  have d: "cachePromise ''mermaid'' (\<lambda>n. (n + 7, Suc n))
     (cache_calls [(''k'', \<lambda>n. (n, Suc n))]
        (snd (cachePromise ''mermaid'' (\<lambda>n. (n, Suc n)) (initial_runtime (0::nat))))) =
     (0, cache_calls [(''k'', \<lambda>n. (n, Suc n))]
        (snd (cachePromise ''mermaid'' (\<lambda>n. (n, Suc n)) (initial_runtime (0::nat)))))"
    by simp
  from a have a': "fst (cachePromise ''mermaid'' (\<lambda>n. (n, Suc n)) (initial_runtime (0::nat))) = 0"
    by simp
  show ?thesis using miss a' c d by blast
qed

section \<open>Properties of objects\<close>

lemma has_prop_get: "has_prop k ps \<longleftrightarrow> get_prop ps k \<noteq> None"
  by (induction ps) auto

lemma get_prop_overwrite:
  "get_prop (overwrite k v ps) k' =
     (if k' = k \<and> has_prop k ps then Some v else get_prop ps k')"
  by (induction ps) auto

lemma get_prop_insert_index:
  "\<not> has_prop k ps \<Longrightarrow>
   get_prop (insert_index k v ps) k' = (if k' = k then Some v else get_prop ps k')"
  by (induction ps) auto

lemma get_prop_append:
  "get_prop (ps @ qs) k = (case get_prop ps k of Some x \<Rightarrow> Some x | None \<Rightarrow> get_prop qs k)"
  by (induction ps) auto

lemma get_prop_set_prop:
  "get_prop (set_prop k v ps) k' = (if k' = k then Some v else get_prop ps k')"
proof (cases "has_prop k ps")
  case True
  then show ?thesis by (simp add: set_prop_def get_prop_overwrite)
next
  case False
  then have "get_prop ps k = None" by (simp add: has_prop_get)
  then show ?thesis
    using False by (auto simp: set_prop_def get_prop_insert_index get_prop_append split: option.splits)
qed

lemma has_prop_set_prop:
  "has_prop k' (set_prop k v ps) \<longleftrightarrow> k' = k \<or> has_prop k' ps"
  by (simp add: has_prop_get get_prop_set_prop)

section \<open>Properties of the attribute parser\<close>

lemma word_not_space: "is_word c \<Longrightarrow> \<not> is_space c"
  by (auto simp: is_word_def is_space_def)

text \<open>From a position that the search visits, the search goes on as from the start.\<close>

lemma scan_arrives:
  "arrives prev s attrs kept prev' s' attrs' \<Longrightarrow>
   scan prev s attrs = (fst (scan prev' s' attrs'), kept @ snd (scan prev' s' attrs'))"
proof (induction rule: arrives.induct)
  case (here prev s attrs)
  show ?case by simp
next
  case (kept prev c cs attrs kept prev' s' attrs')
  then show ?case by auto
next
  case (attribute prev c cs grp v r attrs kept prev' s' attrs')
  then show ?case by simp
next
  case (flag prev c cs attrs kept prev' s' attrs')
  then show ?case by simp
qed

text \<open>Text without white space, after a code unit that is not white space, is kept.\<close>

lemma scan_no_space:
  "\<not> lookbehind p \<Longrightarrow> \<forall>c \<in> set w. \<not> is_space c \<Longrightarrow>
   scan p (w @ d) b =
     (fst (scan (if w = [] then p else Some (last w)) d b),
      w @ snd (scan (if w = [] then p else Some (last w)) d b))"
proof (induction w arbitrary: p)
  case Nil
  show ?case by simp
next
  case (Cons c w)
  have nb: "\<not> lookbehind (Some c)" using Cons.prems(2) by (simp add: lookbehind_def)
  have "scan (Some c) (w @ d) b =
     (fst (scan (if w = [] then Some c else Some (last w)) d b),
      w @ snd (scan (if w = [] then Some c else Some (last w)) d b))"
    using Cons.IH [OF nb] Cons.prems(2) by simp
  then show ?case using Cons.prems(1) by simp
qed

lemma takeWhile_word_prefix:
  "list_all is_word name \<Longrightarrow> \<not> is_word e \<Longrightarrow> takeWhile is_word (name @ e # t) = name"
  by (induction name) auto

lemma dropWhile_word_prefix:
  "list_all is_word name \<Longrightarrow> \<not> is_word e \<Longrightarrow> dropWhile is_word (name @ e # t) = e # t"
  by (induction name) auto

lemma match_value_unterminated:
  assumes "q \<notin> set v"
  shows "match_value (CHR ''='' # q # v) = None"
proof -
  have "dropWhile (\<lambda>c. c \<noteq> q) v = []" using assms by auto
  then show ?thesis by (simp only: match_value.simps list.case if_cancel)
qed

text \<open>What is recorded stays recorded.\<close>

lemma recorded_assign_same: "recorded name (assign name v' b) \<or> (name = ''__proto__'' \<and> v' \<noteq> None)"
  by (cases v') (auto simp: recorded_def assign_def has_prop_set_prop)

lemma recorded_assign: "recorded name b \<Longrightarrow> recorded name (assign n v' b)"
  by (cases v') (auto simp: recorded_def assign_def has_prop_set_prop)

lemma recorded_scan: "recorded name b \<Longrightarrow> recorded name (fst (scan p s b))"
proof (induction p s b rule: scan.induct)
  case (1 prev attrs)
  then show ?case by simp
next
  case (2 prev c cs attrs)
  show ?case
  proof (cases "lookbehind prev \<and> is_word c")
    case False
    then show ?thesis using 2 by (auto split: prod.splits)
  next
    case True
    show ?thesis
    proof (cases "match_value (dropWhile is_word (c # cs))")
      case None
      then show ?thesis
        using True "2.IH"(1) [OF True None] recorded_assign [OF "2.prems"] by simp
    next
      case (Some m)
      obtain grp v r where m: "m = (grp, v, r)" by (cases m) auto
      have "recorded name (assign (takeWhile is_word (c # cs)) (Some v) attrs)"
        using "2.prems" by (rule recorded_assign)
      then have "recorded name
          (fst (scan (Some (last grp)) r (assign (takeWhile is_word (c # cs)) (Some v) attrs)))"
        using "2.IH"(2) [OF True Some, of grp "(v, r)" v r] m by simp
      then show ?thesis using True Some m by simp
    qed
  qed
qed

lemma trim_middle:
  assumes "m \<noteq> []" and "\<forall>c \<in> set m. \<not> is_space c"
  shows "trim (x @ m @ y) = dropWhile is_space x @ m @ rev (dropWhile is_space (rev y))"
proof -
  obtain a m' where m: "m = a # m'" using assms(1) by (cases m) auto
  obtain m'' z where mz: "m = m'' @ [z]" using assms(1) by (cases m rule: rev_cases) auto
  have a: "\<not> is_space a" using assms(2) m by simp
  have z: "\<not> is_space z" using assms(2) mz by simp
  have 1: "dropWhile is_space (x @ m @ y) = dropWhile is_space x @ m @ y"
    using dropWhile_append3 [of is_space a x "m' @ y"] a m by simp
  have "rev (dropWhile is_space x @ m @ y) = rev y @ z # (rev m'' @ rev (dropWhile is_space x))"
    using mz by simp
  then have 2: "dropWhile is_space (rev (dropWhile is_space x @ m @ y)) =
      dropWhile is_space (rev y) @ z # (rev m'' @ rev (dropWhile is_space x))"
    using dropWhile_append3 [of is_space z "rev y" "rev m'' @ rev (dropWhile is_space x)"] z
    by simp
  show ?thesis
    unfolding trim_def 1 2 using mz by simp
qed

text \<open>
  C3, as amended. Take any meta string in which the search comes to stand, at the start
  of the string or after white space, before a token \<open>name="...\<close> or \<open>name='...\<close> whose quote
  is not closed in what follows. The token is not left alone: the name matches on its own
  and is recorded at that point as a flag without value (the name \<open>__proto__\<close> sets the
  prototype instead), and it stays recorded in the bag that is returned. The rest of the
  token, from its \<open>=\<close> up to the next white space, is kept in the residual, and the search
  goes on after it.
\<close>

theorem unterminated_quote_is_flag:
  assumes "arrives None str empty_bag before prev (name @ CHR ''='' # q # v) attrs"
    and "lookbehind prev"
    and "name \<noteq> []" and "list_all is_word name"
    and "q = dquote \<or> q = squote" and "q \<notin> set v"
    and "w = takeWhile (\<lambda>c. \<not> is_space c) v"
    and "r = scan (Some (last (q # w))) (dropWhile (\<lambda>c. \<not> is_space c) v) (assign name None attrs)"
  shows "parseCodeBlockAttributes str =
       \<lparr>attributes = fst r, rest = trim (before @ CHR ''='' # q # w @ snd r)\<rparr> \<and>
     recorded name (assign name None attrs) \<and>
     recorded name (attributes (parseCodeBlockAttributes str)) \<and>
     (\<exists>x y. rest (parseCodeBlockAttributes str) = x @ CHR ''='' # q # w @ y)"
proof -
  let ?d = "dropWhile (\<lambda>c. \<not> is_space c) v"
  let ?b = "assign name None attrs"
  obtain c cs where name: "name = c # cs" using assms(3) by (cases name) auto
  have eq: "\<not> is_word (CHR ''='')" by (simp add: is_word_def)
  have tw: "takeWhile is_word (name @ CHR ''='' # q # v) = name"
    using assms(4) eq by (rule takeWhile_word_prefix)
  have dw: "dropWhile is_word (name @ CHR ''='' # q # v) = CHR ''='' # q # v"
    using assms(4) eq by (rule dropWhile_word_prefix)
  have mv: "match_value (CHR ''='' # q # v) = None"
    using assms(6) by (rule match_value_unterminated)
  have c: "is_word c" using assms(4) name by simp
  have "is_word (last name)" using assms(3,4) by (simp add: list_all_iff)
  then have nb: "\<not> lookbehind (Some (last name))"
    by (simp add: lookbehind_def word_not_space)
  have q: "\<not> is_space q" using assms(5) by (auto simp: is_space_def dquote_def squote_def)
  have w: "\<forall>x \<in> set w. \<not> is_space x" unfolding assms(7) by (auto dest: set_takeWhileD)
  have nospace: "\<forall>x \<in> set (CHR ''='' # q # w). \<not> is_space x"
    using w q by (simp add: is_space_def)
  have v: "v = w @ ?d" unfolding assms(7) by simp
  have step: "scan prev (name @ CHR ''='' # q # v) attrs =
      scan (Some (last name)) (CHR ''='' # q # v) ?b"
    using tw dw mv c assms(2) unfolding name by simp
  have split: "CHR ''='' # q # v = (CHR ''='' # q # w) @ ?d" using v by simp
  have "scan (Some (last name)) ((CHR ''='' # q # w) @ ?d) ?b =
      (fst r, CHR ''='' # q # w @ snd r)"
    using scan_no_space [OF nb nospace, of ?d ?b] unfolding assms(8) by simp
  then have token: "scan prev (name @ CHR ''='' # q # v) attrs =
      (fst r, CHR ''='' # q # w @ snd r)"
    unfolding step by (simp only: split)
  have whole: "scan None str empty_bag = (fst r, before @ CHR ''='' # q # w @ snd r)"
    using scan_arrives [OF assms(1)] token by simp
  then have result: "parseCodeBlockAttributes str =
       \<lparr>attributes = fst r, rest = trim (before @ CHR ''='' # q # w @ snd r)\<rparr>"
    by (simp add: parseCodeBlockAttributes_def)
  have first: "recorded name ?b"
    using recorded_assign_same [of name None attrs] by simp
  then have "recorded name (fst r)" unfolding assms(8) by (rule recorded_scan)
  then have last: "recorded name (attributes (parseCodeBlockAttributes str))"
    using result by simp
  have "trim (before @ (CHR ''='' # q # w) @ snd r) =
      dropWhile is_space before @ (CHR ''='' # q # w) @ rev (dropWhile is_space (rev (snd r)))"
    using nospace by (intro trim_middle) simp_all
  then have "rest (parseCodeBlockAttributes str) =
      dropWhile is_space before @ CHR ''='' # q # w @ rev (dropWhile is_space (rev (snd r)))"
    using result by simp
  then have kept: "\<exists>x y. rest (parseCodeBlockAttributes str) = x @ CHR ''='' # q # w @ y"
    by blast
  show ?thesis using result first last kept by blast
qed

theorem unterminated_quote_is_flag_witness:
  \<open>arrives None ''a="1" b="x y'' empty_bag '' '' (Some (CHR '' '')) ''b="x y''
     \<lparr>entries = [(''a'', Some ''1'')], null_proto = False\<rparr> \<and>
   lookbehind (Some (CHR '' '')) \<and> list_all is_word ''b'' \<and> dquote \<notin> set ''x y'' \<and>
   parseCodeBlockAttributes ''a="1" b="x y'' =
     \<lparr>attributes =
        \<lparr>entries = [(''a'', Some ''1''), (''b'', None), (''y'', None)], null_proto = False\<rparr>,
      rest = ''="x''\<rparr> \<and>
   recorded ''b'' (attributes (parseCodeBlockAttributes ''a="1" b="x y''))\<close>
proof -
  let ?b = "\<lparr>entries = [(''a'', Some ''1'')], null_proto = False\<rparr>"
  have b: "assign ''a'' (Some ''1'') empty_bag = ?b"
    by (simp add: assign_def empty_bag_def set_prop_def is_array_index_def is_digit_def)
  have 0: \<open>arrives (Some (CHR '' '')) ''b="x y'' ?b [] (Some (CHR '' '')) ''b="x y'' ?b\<close>
    by (rule arrives.here)
  have 1: \<open>arrives (Some dquote) '' b="x y'' ?b '' '' (Some (CHR '' '')) ''b="x y'' ?b\<close>
    by (rule arrives.kept [OF _ 0]) (simp add: is_word_def)
  have m: \<open>match_value (dropWhile is_word ''a="1" b="x y'') =
      Some (''="1"'', ''1'', '' b="x y'')\<close>
    by (simp add: is_word_def dquote_def)
  have 2: \<open>arrives None ''a="1" b="x y'' empty_bag '' '' (Some (CHR '' '')) ''b="x y'' ?b\<close>
    by (rule arrives.attribute [OF _ _ m]) (simp_all add: lookbehind_def is_word_def b 1 [unfolded dquote_def])
  have 3: "lookbehind (Some (CHR '' ''))" by (simp add: lookbehind_def is_space_def)
  have 4: "''b'' \<noteq> []" by simp
  have 5: "list_all is_word ''b''" by (simp add: is_word_def)
  have 6: "dquote = dquote \<or> dquote = squote" by simp
  have 7: "dquote \<notin> set ''x y''" by (simp add: dquote_def)
  have w: "takeWhile (\<lambda>c. \<not> is_space c) ''x y'' = ''x''" by (simp add: is_space_def)
  have d: "dropWhile (\<lambda>c. \<not> is_space c) ''x y'' = '' y''" by (simp add: is_space_def)
  have r: "scan (Some (last (dquote # ''x''))) '' y'' (assign ''b'' None ?b) =
      (\<lparr>entries = [(''a'', Some ''1''), (''b'', None), (''y'', None)], null_proto = False\<rparr>, '' '')"
    by (simp add: lookbehind_def is_word_def is_space_def assign_def set_prop_def
        is_array_index_def is_digit_def)
  have t: \<open>trim ('' '' @ CHR ''='' # dquote # ''x'' @ '' '') = ''="x''\<close>
    by (simp add: trim_def is_space_def dquote_def)
  have arr: \<open>arrives None ''a="1" b="x y'' empty_bag '' '' (Some (CHR '' ''))
      (''b'' @ CHR ''='' # dquote # ''x y'') ?b\<close>
    using 2 by (simp add: dquote_def)
  note u = unterminated_quote_is_flag [OF arr 3 4 5 6 7 refl refl]
  from u have result: \<open>parseCodeBlockAttributes ''a="1" b="x y'' =
     \<lparr>attributes =
        \<lparr>entries = [(''a'', Some ''1''), (''b'', None), (''y'', None)], null_proto = False\<rparr>,
      rest = ''="x''\<rparr>\<close>
    unfolding w d r using t by simp
  from u have \<open>recorded ''b'' (attributes (parseCodeBlockAttributes ''a="1" b="x y''))\<close>
    by blast
  then show ?thesis using 2 3 5 7 result by blast
qed

text \<open>
  C3 as stated fails on the token \<open>b="x\<close>: the bag has an entry for \<open>b\<close>, and the residual is
  \<open>="x\<close>, not the whole token.
\<close>

theorem unterminated_quote_counterexample:
  \<open>get_prop (entries (attributes (parseCodeBlockAttributes ''b="x''))) ''b'' = Some None \<and>
   rest (parseCodeBlockAttributes ''b="x'') = ''="x''\<close>
  by (simp add: parseCodeBlockAttributes_def lookbehind_def is_word_def is_space_def
      dquote_def squote_def assign_def empty_bag_def set_prop_def is_array_index_def
      is_digit_def trim_def)

section \<open>Properties of the block rewriter\<close>

lemma strip_end:
  "xs = rev (dropWhile P (rev xs)) @ rev (takeWhile P (rev xs))"
proof -
  have "rev (dropWhile P (rev xs)) @ rev (takeWhile P (rev xs)) =
      rev (takeWhile P (rev xs) @ dropWhile P (rev xs))"
    by (simp only: rev_append)
  also have "\<dots> = xs" by (simp only: takeWhile_dropWhile_id rev_rev_ident)
  finally show ?thesis by simp
qed

lemma trim_decomposition:
  "\<exists>pre post. s = pre @ trim s @ post \<and> list_all is_space pre \<and> list_all is_space post"
proof -
  let ?d = "dropWhile is_space s"
  have d: "?d = trim s @ rev (takeWhile is_space (rev ?d))"
    unfolding trim_def by (rule strip_end)
  have "s = takeWhile is_space s @ ?d" by simp
  with d have "s = takeWhile is_space s @ trim s @ rev (takeWhile is_space (rev ?d))" by simp
  moreover have "list_all is_space (takeWhile is_space s)"
    by (simp add: list_all_iff) (meson set_takeWhileD)
  moreover have "list_all is_space (rev (takeWhile is_space (rev ?d)))"
    by (simp add: list_all_iff) (meson set_takeWhileD)
  ultimately show ?thesis by blast
qed

lemma trim_ends:
  assumes "trim s \<noteq> []"
  shows "\<not> is_space (hd (trim s)) \<and> \<not> is_space (last (trim s))"
proof -
  let ?d = "dropWhile is_space s"
  let ?e = "dropWhile is_space (rev ?d)"
  have e: "?e \<noteq> []" using assms by (simp add: trim_def)
  then have "\<not> is_space (hd ?e)" by (rule hd_dropWhile)
  then have l: "\<not> is_space (last (trim s))" using e by (simp add: trim_def last_rev)
  have d: "?d = trim s @ rev (takeWhile is_space (rev ?d))"
    unfolding trim_def by (rule strip_end)
  then have "?d \<noteq> []" using assms by (metis Nil_is_append_conv)
  then have "\<not> is_space (hd ?d)" by (rule hd_dropWhile)
  moreover have "hd ?d = hd (trim s)" using d assms by (metis hd_append2)
  ultimately show ?thesis using l by simp
qed

lemma code_leaves_subnode:
  "code_leaves t \<Longrightarrow> subnode p t = Some n \<Longrightarrow> code_leaves n"
proof (induction p arbitrary: t)
  case Nil
  then show ?case by simp
next
  case (Cons i p)
  obtain ty l m v nm at ch x where t: "t = Node ty l m v nm at ch x" by (cases t)
  from Cons.prems(2) t obtain cs where ch: "ch = Some cs" and i: "i < length cs"
    and sub: "subnode p (cs ! i) = Some n"
    by (auto split: option.splits if_splits)
  from Cons.prems(1) t ch i have "code_leaves (cs ! i)" by (simp add: list_all_length)
  then show ?case using sub by (rule Cons.IH)
qed

lemma visit_code_skipped:
  assumes "code_leaves n" and "node_type n = ''code''" and "skips target n"
  shows "visit_code target n = n"
proof -
  obtain ty l m v nm at ch x where n: "n = Node ty l m v nm at ch x" by (cases n)
  with assms(1,2) have "ch = None" by simp
  then show ?thesis using assms(3) n by simp
qed

lemma visit_code_subnode:
  "code_leaves t \<Longrightarrow> subnode p (visit_code target t) = map_option (visit_code target) (subnode p t)"
proof (induction p arbitrary: t)
  case Nil
  show ?case by simp
next
  case (Cons i p)
  obtain ty l m v nm at ch x where t: "t = Node ty l m v nm at ch x" by (cases t)
  show ?case
  proof (cases "ty = ''code''")
    case True
    with Cons.prems t have ch: "ch = None" by simp
    show ?thesis using t ch True by (simp add: visitor_def)
  next
    case False
    show ?thesis
    proof (cases ch)
      case None
      then show ?thesis using t False by simp
    next
      case (Some cs)
      show ?thesis
      proof (cases "i < length cs")
        case True
        with Cons.prems t Some have "code_leaves (cs ! i)" by (simp add: list_all_length)
        then have "subnode p (visit_code target (cs ! i)) =
            map_option (visit_code target) (subnode p (cs ! i))" by (rule Cons.IH)
        then show ?thesis using t False Some True by simp
      next
        case False
        then show ?thesis using t \<open>ty \<noteq> ''code''\<close> Some by simp
      qed
    qed
  qed
qed

text \<open>
  C9. A code node anywhere in the tree whose language is not the target, or whose body is
  absent or empty, is the same node, field by field, at the same position after the
  traversal.
\<close>

theorem skipped_code_node_unchanged:
  assumes "code_leaves tree" and "subnode p tree = Some n" and "node_type n = ''code''"
    and "lang n \<noteq> Some (case lang_option of None \<Rightarrow> ''mermaid'' | Some l \<Rightarrow> l) \<or>
         node_value n = None \<or> node_value n = Some []"
  shows "subnode p (remarkMdxMermaid lang_option tree) = Some n"
proof -
  let ?target = "case lang_option of None \<Rightarrow> ''mermaid'' | Some l \<Rightarrow> l"
  have leaves: "code_leaves n" using assms(1,2) by (rule code_leaves_subnode)
  have "skips ?target n" using assms(4) by (auto simp: skips_def truthy_str_def)
  with leaves assms(3) have "visit_code ?target n = n" by (rule visit_code_skipped)
  then show ?thesis
    using visit_code_subnode [OF assms(1), of p ?target] assms(2)
    by (simp add: remarkMdxMermaid_def)
qed

text \<open>
  C8. A code node with the target language and a body that is not empty is replaced by an
  element \<open>Mermaid\<close>. Its attribute \<open>chart\<close> reads back as the body without its leading and
  trailing white space: the body is white space, then that value, then white space, and
  the value neither starts nor ends with white space. The attribute \<open>config\<close> is there if
  and only if the bag parsed from the meta string has an entry, and it holds the bag in
  JSON.
\<close>

theorem rewritten_code_node:
  assumes "code_leaves tree" and "subnode p tree = Some n" and "node_type n = ''code''"
    and "lang n = Some (case lang_option of None \<Rightarrow> ''mermaid'' | Some l \<Rightarrow> l)"
    and "node_value n = Some body" and "body \<noteq> []"
    and "parsed = attributes (parseCodeBlockAttributes (case meta n of None \<Rightarrow> [] | Some m \<Rightarrow> m))"
  shows "\<exists>attrs.
     subnode p (remarkMdxMermaid lang_option tree) =
       Some (Node ''mdxJsxFlowElement'' (lang n) (meta n) (node_value n) (Some ''Mermaid'')
               (Some attrs) (Some []) (other n)) \<and>
     read_attribute ''chart'' attrs = Some (trim body) \<and>
     (\<exists>pre post. body = pre @ trim body @ post \<and> list_all is_space pre \<and> list_all is_space post) \<and>
     (trim body \<noteq> [] \<longrightarrow> \<not> is_space (hd (trim body)) \<and> \<not> is_space (last (trim body))) \<and>
     (read_attribute ''config'' attrs \<noteq> None \<longleftrightarrow> entries parsed \<noteq> []) \<and>
     (entries parsed \<noteq> [] \<longrightarrow>
        read_attribute ''config'' attrs = Some (JSON_stringify (bag_object parsed)))"
proof -
  let ?target = "case lang_option of None \<Rightarrow> ''mermaid'' | Some l \<Rightarrow> l"
  let ?attrs = "el_attributes (toMDX body parsed)"
  obtain ty l m v nm at ch x where n: "n = Node ty l m v nm at ch x" by (cases n)
  have ns: "\<not> skips ?target n" using assms(4,5,6) by (simp add: skips_def truthy_str_def)
  have "visit_code ?target n = visitor ?target n" using n ns assms(3) by simp
  also have "\<dots> = Object_assign n (toMDX body parsed)"
    using ns assms(5,7) by (simp add: visitor_def)
  also have "\<dots> = Node ''mdxJsxFlowElement'' (lang n) (meta n) (node_value n) (Some ''Mermaid'')
               (Some ?attrs) (Some []) (other n)"
    using n by (simp add: toMDX_def)
  finally have v: "visit_code ?target n = Node ''mdxJsxFlowElement'' (lang n) (meta n)
      (node_value n) (Some ''Mermaid'') (Some ?attrs) (Some []) (other n)" .
  have 1: "subnode p (remarkMdxMermaid lang_option tree) =
       Some (Node ''mdxJsxFlowElement'' (lang n) (meta n) (node_value n) (Some ''Mermaid'')
               (Some ?attrs) (Some []) (other n))"
    using visit_code_subnode [OF assms(1), of p ?target] assms(2) v
    by (simp add: remarkMdxMermaid_def)
  have 2: "read_attribute ''chart'' ?attrs = Some (trim body)"
    by (simp add: toMDX_def read_attribute_def)
  have 3: "read_attribute ''config'' ?attrs \<noteq> None \<longleftrightarrow> entries parsed \<noteq> []"
    by (simp add: toMDX_def read_attribute_def)
  have 4: "entries parsed \<noteq> [] \<longrightarrow>
        read_attribute ''config'' ?attrs = Some (JSON_stringify (bag_object parsed))"
    by (simp add: toMDX_def read_attribute_def)
  show ?thesis using 1 2 3 4 trim_decomposition [of body] trim_ends [of body] by blast
qed

theorem skipped_code_node_unchanged_witness:
  \<open>code_leaves (Node ''root'' None None None None None
       (Some [Node ''code'' (Some ''mermaid'') (Some ''theme="dark" wide'') (Some '' graph TD '')
                None None None (),
              Node ''code'' (Some ''js'') None (Some ''x'') None None None (),
              Node ''code'' (Some ''mermaid'') None (Some []) None None None ()]) ()) \<and>
   subnode [1] (remarkMdxMermaid None (Node ''root'' None None None None None
       (Some [Node ''code'' (Some ''mermaid'') (Some ''theme="dark" wide'') (Some '' graph TD '')
                None None None (),
              Node ''code'' (Some ''js'') None (Some ''x'') None None None (),
              Node ''code'' (Some ''mermaid'') None (Some []) None None None ()]) ())) =
     Some (Node ''code'' (Some ''js'') None (Some ''x'') None None None ()) \<and>
   subnode [2] (remarkMdxMermaid None (Node ''root'' None None None None None
       (Some [Node ''code'' (Some ''mermaid'') (Some ''theme="dark" wide'') (Some '' graph TD '')
                None None None (),
              Node ''code'' (Some ''js'') None (Some ''x'') None None None (),
              Node ''code'' (Some ''mermaid'') None (Some []) None None None ()]) ())) =
     Some (Node ''code'' (Some ''mermaid'') None (Some []) None None None ())\<close>
proof -
  let ?tree = \<open>Node ''root'' None None None None None
       (Some [Node ''code'' (Some ''mermaid'') (Some ''theme="dark" wide'') (Some '' graph TD '')
                None None None (),
              Node ''code'' (Some ''js'') None (Some ''x'') None None None (),
              Node ''code'' (Some ''mermaid'') None (Some []) None None None ()]) ()\<close>
  have leaves: "code_leaves ?tree" by simp
  have a: "subnode [1] ?tree = Some (Node ''code'' (Some ''js'') None (Some ''x'') None None None ())"
    by simp
  have b: "subnode [2] ?tree = Some (Node ''code'' (Some ''mermaid'') None (Some []) None None None ())"
    by simp
  show ?thesis
    using leaves
      skipped_code_node_unchanged [OF leaves a, of None]
      skipped_code_node_unchanged [OF leaves b, of None]
    by simp
qed

theorem rewritten_code_node_witness:
  \<open>\<exists>attrs.
     subnode [0] (remarkMdxMermaid None (Node ''root'' None None None None None
       (Some [Node ''code'' (Some ''mermaid'') (Some ''theme="dark" wide'') (Some '' graph TD '')
                None None None (),
              Node ''code'' (Some ''js'') None (Some ''x'') None None None ()]) ())) =
       Some (Node ''mdxJsxFlowElement'' (Some ''mermaid'') (Some ''theme="dark" wide'')
               (Some '' graph TD '') (Some ''Mermaid'') (Some attrs) (Some []) ()) \<and>
     read_attribute ''chart'' attrs = Some ''graph TD'' \<and>
     read_attribute ''config'' attrs = Some ''{"theme":"dark","wide":null}''\<close>
proof -
  let ?n = \<open>Node ''code'' (Some ''mermaid'') (Some ''theme="dark" wide'') (Some '' graph TD '')
                None None None ()\<close>
  let ?tree = \<open>Node ''root'' None None None None None
       (Some [?n, Node ''code'' (Some ''js'') None (Some ''x'') None None None ()]) ()\<close>
  have leaves: "code_leaves ?tree" by simp
  have a: "subnode [0] ?tree = Some ?n" by simp
  have ty: "node_type ?n = ''code''" by simp
  have lg: "lang ?n = Some (case None of None \<Rightarrow> ''mermaid'' | Some l \<Rightarrow> l)" by simp
  have v: "node_value ?n = Some '' graph TD ''" by simp
  have ne: "'' graph TD '' \<noteq> []" by simp
  have parsed: \<open>attributes (parseCodeBlockAttributes ''theme="dark" wide'') =
      \<lparr>entries = [(''theme'', Some ''dark''), (''wide'', None)], null_proto = False\<rparr>\<close>
    by (simp add: parseCodeBlockAttributes_def lookbehind_def is_word_def is_space_def
        dquote_def squote_def assign_def empty_bag_def set_prop_def is_array_index_def
        is_digit_def)
  have tr: "trim '' graph TD '' = ''graph TD''"
    by (simp add: trim_def is_space_def)
  have js: \<open>JSON_stringify (bag_object
       \<lparr>entries = [(''theme'', Some ''dark''), (''wide'', None)], null_proto = False\<rparr>) =
     ''{"theme":"dark","wide":null}''\<close>
    by (simp add: bag_object_def quote_json_def quote_char_def dquote_def bslash_def)
  from rewritten_code_node [OF leaves a ty lg v ne, of
      "attributes (parseCodeBlockAttributes (case meta ?n of None \<Rightarrow> [] | Some m \<Rightarrow> m))"]
  show ?thesis
    by (simp add: parsed tr js) blast
qed

section \<open>Properties of the configuration resolver\<close>

lemma JSON_parse_empty: "JSON_parse [] = Throws SyntaxError"
  by (simp add: JSON_parse_def parse_value.simps [of "[]"] skip_ws_def)

lemma JSON_parse_null: "JSON_parse ''null'' = Returns JNull"
  by code_simp

lemma buildMermaidConfig_fallback:
  assumes "configStr = None \<or> configStr = Some [] \<or>
           (\<exists>cfg err. configStr = Some cfg \<and> JSON_parse cfg = Throws err)"
  shows "buildMermaidConfig configStr override = Returns (theme_only override)"
  using assms by (auto simp: buildMermaidConfig_def truthy_str_def)

text \<open>
  C7. Config resolution can raise: the serialized config \<open>null\<close> is a JSON text, \<open>JSON.parse\<close>
  returns \<open>null\<close> for it, and reading \<open>parsed.config\<close> throws a \<open>TypeError\<close> outside the two
  \<open>try\<close> blocks, whatever the theme override.
\<close>

theorem null_config_throws:
  "buildMermaidConfig (Some ''null'') override = Throws TypeError"
  by (simp add: buildMermaidConfig_def truthy_str_def JSON_parse_null)

lemma get_prop_attach:
  "k \<noteq> family \<Longrightarrow> get_prop (attach family options c) k = get_prop c k"
  by (simp add: attach_def get_prop_set_prop)

lemma flat_config_theme:
  "flat_config parsed override = Returns c \<Longrightarrow>
   get_prop c ''theme'' = get_prop (flat_theme parsed override) ''theme''"
  by (auto simp: flat_config_def get_prop_attach split: result.splits)

lemma theme_string_truthy: "truthy_str (theme_string n)"
  by (cases n) (simp_all add: truthy_str_def)

lemma resolvedTheme_truthy:
  "truthy_str (resolvedTheme (map_option theme_string theme) systemTheme)"
  by (cases theme) (simp_all add: resolvedTheme_def theme_string_truthy, simp add: truthy_str_def)

lemma buildMermaidConfig_theme:
  assumes "no_nested_config configStr"
    and "buildMermaidConfig configStr (Some r) = Returns c" and "truthy_str r"
  shows "get_prop c ''theme'' =
     (case flat_attribute_theme configStr of Some t \<Rightarrow> Some t | None \<Rightarrow> Some (JStr r))"
proof (cases "configStr = None \<or> configStr = Some [] \<or>
           (\<exists>cfg err. configStr = Some cfg \<and> JSON_parse cfg = Throws err)")
  case True
  then have "buildMermaidConfig configStr (Some r) = Returns (theme_only (Some r))"
    by (rule buildMermaidConfig_fallback)
  with assms have c: "get_prop c ''theme'' = Some (JStr r)" by (auto simp: theme_only_def)
  from True have "flat_attribute_theme configStr = None"
    by (auto simp: flat_attribute_theme_def JSON_parse_empty)
  with c show ?thesis by simp
next
  case False
  then obtain cfg where cs: "configStr = Some cfg" and ne: "cfg \<noteq> []"
    and nt: "\<forall>err. JSON_parse cfg \<noteq> Throws err"
    by (cases configStr) auto
  from assms(2) cs ne nt obtain parsed where p: "JSON_parse cfg = Returns parsed"
    by (cases "JSON_parse cfg") (auto simp: buildMermaidConfig_def truthy_str_def)
  from assms(2) cs ne p have nn: "parsed \<noteq> JNull"
    by (auto simp: buildMermaidConfig_def truthy_str_def split: if_splits)
  from assms(1) cs p have flat: "nested_config parsed = Returns None"
    by (simp add: no_nested_config_def)
  with assms(2) cs ne p nn have "flat_config parsed (Some r) = Returns c"
    by (simp add: buildMermaidConfig_def truthy_str_def)
  then have "get_prop c ''theme'' = get_prop (flat_theme parsed (Some r)) ''theme''"
    by (rule flat_config_theme)
  also have "\<dots> = (if truthy (get parsed ''theme'') then get parsed ''theme'' else Some (JStr r))"
    using assms(3) by (auto simp: flat_theme_def theme_only_def split: option.splits)
  finally show ?thesis
    using cs p by (auto simp: flat_attribute_theme_def split: option.splits)
qed

text \<open>
  C1, as amended. Take a render attempt whose serialized config carries no nested config
  (it is absent, or does not parse, or parses to a value without a field \<open>config\<close> that is a
  JSON text) and resolves. The theme of its config is, highest first: the truthy \<open>theme\<close>
  given as a flat attribute of the serialized config; then the \<open>theme\<close> property of the
  component; then the ambient color mode, \<open>dark\<close> for \<open>dark\<close> and \<open>default\<close> otherwise. The
  property of the component sets the theme exactly when the serialized config gives no
  truthy flat theme.
\<close>

theorem theme_precedence:
  assumes "no_nested_config configStr"
    and "diagramConfig (content_of source theme css configStr exportable_prop) systemTheme =
           Returns c"
  shows "get_prop c ''theme'' =
     (case flat_attribute_theme configStr of
        Some t \<Rightarrow> Some t
      | None \<Rightarrow>
          Some (JStr (case theme of
                        Some n \<Rightarrow> theme_string n
                      | None \<Rightarrow> if systemTheme = Some ''dark'' then ''dark'' else ''default'')))"
proof -
  let ?r = "resolvedTheme (map_option theme_string theme) systemTheme"
  from assms(2) obtain c0 where b: "buildMermaidConfig configStr (Some ?r) = Returns c0"
    and c: "c = set_prop ''themeCSS''
                  (JStr (themeCSS (content_of source theme css configStr exportable_prop))) c0"
    by (auto simp: diagramConfig_def content_of_def map_result_Returns)
  have "get_prop c ''theme'' = get_prop c0 ''theme''"
    using c by (simp add: get_prop_set_prop)
  also have "\<dots> = (case flat_attribute_theme configStr of Some t \<Rightarrow> Some t | None \<Rightarrow> Some (JStr ?r))"
    using assms(1) b resolvedTheme_truthy by (rule buildMermaidConfig_theme)
  also have "?r = (case theme of
                     Some n \<Rightarrow> theme_string n
                   | None \<Rightarrow> if systemTheme = Some ''dark'' then ''dark'' else ''default'')"
    by (cases theme) (simp_all add: resolvedTheme_def)
  finally show ?thesis .
qed

text \<open>
  C1 as stated fails: with the \<open>theme\<close> property \<open>forest\<close> and the serialized config
  \<open>{"theme":"dark"}\<close> the theme of the config is \<open>dark\<close>.
\<close>

theorem theme_precedence_counterexample:
  \<open>diagramConfig (content_of ''graph TD'' (Some Theme_forest) None (Some ''{"theme":"dark"}'') None)
      (Some ''light'') =
     Returns [(''theme'', JStr ''dark''), (''themeCSS'', JStr ''margin: 1.5rem auto 0;'')] \<and>
   JStr ''dark'' \<noteq> JStr (theme_string Theme_forest)\<close>
  by code_simp

theorem theme_precedence_witness:
  \<open>no_nested_config (Some ''{"theme":"dark"}'') \<and>
   flat_attribute_theme (Some ''{"theme":"dark"}'') = Some (JStr ''dark'') \<and>
   diagramConfig (content_of ''graph TD'' (Some Theme_forest) None (Some ''{"theme":"dark"}'') None)
      (Some ''light'') =
     Returns [(''theme'', JStr ''dark''), (''themeCSS'', JStr ''margin: 1.5rem auto 0;'')] \<and>
   get_prop [(''theme'', JStr ''dark''), (''themeCSS'', JStr ''margin: 1.5rem auto 0;'')] ''theme'' =
     Some (JStr ''dark'') \<and>
   no_nested_config (Some ''{"curve":"basis"}'') \<and>
   flat_attribute_theme (Some ''{"curve":"basis"}'') = None \<and>
   diagramConfig (content_of ''graph TD'' (Some Theme_forest) None (Some ''{"curve":"basis"}'') None)
      (Some ''dark'') =
     Returns [(''theme'', JStr ''forest''), (''flowchart'', JObj [(''curve'', JStr ''basis'')]),
              (''themeCSS'', JStr ''margin: 1.5rem auto 0;'')] \<and>
   get_prop [(''theme'', JStr ''forest''), (''flowchart'', JObj [(''curve'', JStr ''basis'')]),
             (''themeCSS'', JStr ''margin: 1.5rem auto 0;'')] ''theme'' =
     Some (JStr ''forest'')\<close>
proof -
  have n1: \<open>no_nested_config (Some ''{"theme":"dark"}'')\<close> by code_simp
  have f1: \<open>flat_attribute_theme (Some ''{"theme":"dark"}'') = Some (JStr ''dark'')\<close>
    by code_simp
  have d1: \<open>diagramConfig
      (content_of ''graph TD'' (Some Theme_forest) None (Some ''{"theme":"dark"}'') None)
      (Some ''light'') =
     Returns [(''theme'', JStr ''dark''), (''themeCSS'', JStr ''margin: 1.5rem auto 0;'')]\<close>
    by code_simp
  have n2: \<open>no_nested_config (Some ''{"curve":"basis"}'')\<close> by code_simp
  have f2: \<open>flat_attribute_theme (Some ''{"curve":"basis"}'') = None\<close>
    by code_simp
  have d2: \<open>diagramConfig
      (content_of ''graph TD'' (Some Theme_forest) None (Some ''{"curve":"basis"}'') None)
      (Some ''dark'') =
     Returns [(''theme'', JStr ''forest''), (''flowchart'', JObj [(''curve'', JStr ''basis'')]),
              (''themeCSS'', JStr ''margin: 1.5rem auto 0;'')]\<close>
    by code_simp
  have t1: "get_prop [(''theme'', JStr ''dark''), (''themeCSS'', JStr ''margin: 1.5rem auto 0;'')]
      ''theme'' = Some (JStr ''dark'')"
    using theme_precedence [OF n1 d1] by (simp only: f1 option.case)
  have t2: "get_prop [(''theme'', JStr ''forest''), (''flowchart'', JObj [(''curve'', JStr ''basis'')]),
             (''themeCSS'', JStr ''margin: 1.5rem auto 0;'')] ''theme'' = Some (JStr ''forest'')"
    using theme_precedence [OF n2 d2] by (simp only: f2 option.case theme_string.simps)
  show ?thesis using n1 f1 d1 t1 n2 f2 d2 t2 by blast
qed

lemma attribute_value_cases: "attribute_value v \<Longrightarrow> v = JNull \<or> (\<exists>str. v = JStr str)"
  by (cases v) simp_all

lemma flat_bag_get:
  "flat_bag ps \<Longrightarrow> get_prop ps k = Some v \<Longrightarrow> v = JNull \<or> (\<exists>str. v = JStr str)"
proof (induction ps)
  case Nil
  then show ?case by simp
next
  case (Cons p ps)
  obtain k' v' where p: "p = (k', v')" by (cases p)
  show ?case
  proof (cases "k' = k")
    case True
    with Cons.prems p have "attribute_value v" by (simp add: flat_bag_def)
    then show ?thesis by (rule attribute_value_cases)
  next
    case False
    with Cons.prems p have "flat_bag ps" and "get_prop ps k = Some v"
      by (simp_all add: flat_bag_def)
    then show ?thesis by (rule Cons.IH)
  qed
qed

lemma set_prop_empty: "set_prop k v [] = [(k, v)]"
  by (simp add: set_prop_def)

lemma set_prop_fresh:
  "get_prop ps k = None \<Longrightarrow> \<not> is_array_index k \<Longrightarrow> set_prop k v ps = ps @ [(k, v)]"
  by (simp add: set_prop_def has_prop_get)

text \<open>The digits read from left to right give the value by place.\<close>

lemma int_of_digits_snoc: "int_of_digits (ds @ [d]) = 10 * int_of_digits ds + digit_val d"
  by (simp add: int_of_digits_def)

lemma decimal_value_snoc: "decimal_value (ds @ [d]) = 10 * decimal_value ds + digit_val d"
proof -
  have "map (\<lambda>i. digit_val ((ds @ [d]) ! i) * 10 ^ (length ds - i)) [0..<length ds] =
      map (\<lambda>i. 10 * (digit_val (ds ! i) * 10 ^ (length ds - Suc i))) [0..<length ds]"
  proof (rule map_cong [OF refl])
    fix i
    assume "i \<in> set [0..<length ds]"
    then have i: "i < length ds" by simp
    then have "length ds - i = Suc (length ds - Suc i)" by simp
    then show "digit_val ((ds @ [d]) ! i) * 10 ^ (length ds - i) =
        10 * (digit_val (ds ! i) * 10 ^ (length ds - Suc i))"
      using i by (simp add: nth_append)
  qed
  from arg_cong [OF this, of sum_list]
  have s: "(\<Sum>i \<leftarrow> [0..<length ds]. digit_val ((ds @ [d]) ! i) * 10 ^ (length ds - i)) =
      10 * (\<Sum>i \<leftarrow> [0..<length ds]. digit_val (ds ! i) * 10 ^ (length ds - Suc i))"
    by (simp only: sum_list_const_mult)
  show ?thesis
    by (simp add: decimal_value_def s)
qed

lemma int_of_digits_decimal: "int_of_digits ds = decimal_value ds"
proof (induction ds rule: rev_induct)
  case Nil
  show ?case by (simp add: int_of_digits_def decimal_value_def)
next
  case (snoc d ds)
  then show ?case by (simp only: int_of_digits_snoc decimal_value_snoc)
qed

lemma exact_double_minus: "exact_double (- n) = exact_double n"
  by (simp add: exact_double_def)

text \<open>\<open>parseInt\<close> returns the integer of the specification wherever a number holds it.\<close>

lemma parse_int_spec:
  "parse_int_string str =
     (if held_exactly (spec_integer str) then Returns (spec_integer str) else Unrepresented)"
proof (cases "dropWhile is_space str")
  case Nil
  show ?thesis unfolding parse_int_string_def spec_integer_def Nil by simp
next
  case (Cons c t)
  show ?thesis
  proof (cases "c = CHR ''-'' \<or> c = CHR ''+''")
    case True
    then show ?thesis
      unfolding parse_int_string_def spec_integer_def Cons
      by (auto simp: Let_def int_of_digits_decimal exact_double_minus)
  next
    case False
    then show ?thesis
      unfolding parse_int_string_def spec_integer_def Cons
      by (auto simp: Let_def int_of_digits_decimal)
  qed
qed

lemma takeWhile_digits:
  "list_all is_digit ds \<Longrightarrow> r = [] \<or> \<not> is_digit (hd r) \<Longrightarrow> takeWhile is_digit (ds @ r) = ds"
proof (induction ds)
  case Nil
  then show ?case by (cases r) auto
next
  case (Cons d ds)
  then show ?case by simp
qed

lemma digit_facts:
  "is_digit c \<Longrightarrow> \<not> is_space c \<and> c \<noteq> CHR ''-'' \<and> c \<noteq> CHR ''+''"
  by (auto simp: is_digit_def is_space_def)

lemma spec_integer_parts:
  assumes "list_all is_space ws" and "sg = [] \<or> sg = ''-'' \<or> sg = ''+''"
    and "list_all is_digit ds" and "r = [] \<or> \<not> is_digit (hd r)"
    and "sg = [] \<and> ds = [] \<and> r \<noteq> [] \<longrightarrow>
           \<not> is_space (hd r) \<and> hd r \<noteq> CHR ''-'' \<and> hd r \<noteq> CHR ''+''"
  shows "spec_integer (ws @ sg @ ds @ r) =
     (if ds = [] then JNaN else JNum ((if sg = ''-'' then - 1 else 1) * decimal_value ds) 0)"
proof -
  have tw: "takeWhile is_digit (ds @ r) = ds" using assms(3,4) by (rule takeWhile_digits)
  have sp: "\<not> is_space (CHR ''-'')" "\<not> is_space (CHR ''+'')" by (simp_all add: is_space_def)
  have head: "sg @ ds @ r = [] \<or> \<not> is_space (hd (sg @ ds @ r))"
  proof (cases "sg = []")
    case False
    with assms(2) sp show ?thesis by auto
  next
    case sg: True
    show ?thesis
    proof (cases ds)
      case (Cons d ds')
      with assms(3) have "is_digit d" by simp
      then show ?thesis using sg Cons digit_facts by simp
    next
      case Nil
      with sg assms(5) show ?thesis by auto
    qed
  qed
  have "dropWhile is_space (ws @ sg @ ds @ r) = dropWhile is_space (sg @ ds @ r)"
    using assms(1) by (simp add: list_all_iff)
  also have "\<dots> = sg @ ds @ r"
    using head by (cases "sg @ ds @ r") auto
  finally have dw: "dropWhile is_space (ws @ sg @ ds @ r) = sg @ ds @ r" .
  show ?thesis
  proof (cases "sg = []")
    case False
    with assms(2) show ?thesis
      unfolding spec_integer_def dw using tw by auto
  next
    case sg: True
    show ?thesis
    proof (cases ds)
      case (Cons d ds')
      with assms(3) have "is_digit d" by simp
      then have "d \<noteq> CHR ''-'' \<and> d \<noteq> CHR ''+''" using digit_facts by blast
      then show ?thesis
        unfolding spec_integer_def dw using tw sg Cons by simp
    next
      case Nil
      show ?thesis
      proof (cases r)
        case Nil
        with sg \<open>ds = []\<close> show ?thesis unfolding spec_integer_def dw by simp
      next
        case (Cons c t)
        with sg \<open>ds = []\<close> assms(4,5) show ?thesis
          unfolding spec_integer_def dw by simp
      qed
    qed
  qed
qed

lemma parse_int_parts:
  assumes "list_all is_space ws" and "sg = [] \<or> sg = ''-'' \<or> sg = ''+''"
    and "list_all is_digit ds" and "r = [] \<or> \<not> is_digit (hd r)"
    and "sg = [] \<and> ds = [] \<and> r \<noteq> [] \<longrightarrow>
           \<not> is_space (hd r) \<and> hd r \<noteq> CHR ''-'' \<and> hd r \<noteq> CHR ''+''"
  shows "parse_int_string (ws @ sg @ ds @ r) =
     (if ds = [] then Returns JNaN
      else if exact_double (decimal_value ds)
        then Returns (JNum ((if sg = ''-'' then - 1 else 1) * decimal_value ds) 0)
      else Unrepresented)"
  unfolding parse_int_spec spec_integer_parts [OF assms]
  by (simp add: exact_double_minus)

lemma collect_int_flat:
  assumes "flat_bag ps"
    and "case string_field ps k of None \<Rightarrow> True | Some str \<Rightarrow> held_exactly (spec_integer str)"
  shows "collect_int (JObj ps) k opts =
     Returns (case string_field ps k of
                None \<Rightarrow> opts
              | Some str \<Rightarrow> set_prop k (spec_integer str) opts)"
proof (cases "get_prop ps k")
  case None
  then show ?thesis by (simp add: collect_int_def string_field_def)
next
  case (Some v)
  with assms(1) have "v = JNull \<or> (\<exists>str. v = JStr str)" by (rule flat_bag_get)
  then show ?thesis using Some assms(2)
    by (auto simp: collect_int_def string_field_def parseInt_def parse_int_spec)
qed

lemma collect_bool_flat:
  assumes "flat_bag ps"
  shows "collect_bool (JObj ps) k opts =
     (case string_field ps k of
        None \<Rightarrow> opts
      | Some str \<Rightarrow> set_prop k (JBool (str = ''true'')) opts)"
proof (cases "get_prop ps k")
  case None
  then show ?thesis by (simp add: collect_bool_def string_field_def)
next
  case (Some v)
  with assms have "v = JNull \<or> (\<exists>str. v = JStr str)" by (rule flat_bag_get)
  then show ?thesis using Some
    by (auto simp: collect_bool_def string_field_def)
qed

lemma collect_string_flat:
  assumes "flat_bag ps"
  shows "collect_string (JObj ps) k opts =
     (case string_field ps k of
        None \<Rightarrow> opts
      | Some str \<Rightarrow> set_prop k (JStr str) opts)"
proof (cases "get_prop ps k")
  case None
  then show ?thesis by (simp add: collect_string_def string_field_def)
next
  case (Some v)
  with assms have "v = JNull \<or> (\<exists>str. v = JStr str)" by (rule flat_bag_get)
  then show ?thesis using Some
    by (auto simp: collect_string_def string_field_def)
qed

lemma add_field:
  "get_prop opts k = None \<Longrightarrow> \<not> is_array_index k \<Longrightarrow>
   (case string_field ps k of None \<Rightarrow> opts | Some str \<Rightarrow> set_prop k (f str) opts) =
   opts @ (case string_field ps k of None \<Rightarrow> [] | Some str \<Rightarrow> [(k, f str)])"
  by (simp add: set_prop_fresh split: option.splits)

lemma attach_group:
  "get_prop c family = None \<Longrightarrow> \<not> is_array_index family \<Longrightarrow>
   attach family opts c = c @ spec_group family opts"
  by (simp add: attach_def spec_group_def set_prop_fresh)

lemma names_not_indices:
  "\<not> is_array_index ''rowHeight''" "\<not> is_array_index ''bitsPerRow''"
  "\<not> is_array_index ''showBits''" "\<not> is_array_index ''nodeSpacing''"
  "\<not> is_array_index ''rankSpacing''" "\<not> is_array_index ''curve''"
  "\<not> is_array_index ''mirrorActors''" "\<not> is_array_index ''messageAlign''"
  "\<not> is_array_index ''packet''" "\<not> is_array_index ''flowchart''"
  "\<not> is_array_index ''sequence''" "\<not> is_array_index ''theme''"
  by (simp_all add: is_array_index_def is_digit_def)

lemma integers_held_fields:
  assumes "integers_held ps"
  shows "case string_field ps ''rowHeight'' of
           None \<Rightarrow> True | Some str \<Rightarrow> held_exactly (spec_integer str)"
    and "case string_field ps ''bitsPerRow'' of
           None \<Rightarrow> True | Some str \<Rightarrow> held_exactly (spec_integer str)"
    and "case string_field ps ''nodeSpacing'' of
           None \<Rightarrow> True | Some str \<Rightarrow> held_exactly (spec_integer str)"
    and "case string_field ps ''rankSpacing'' of
           None \<Rightarrow> True | Some str \<Rightarrow> held_exactly (spec_integer str)"
  using assms by (simp_all add: integers_held_def integer_fields_def)

lemma packet_options:
  assumes "flat_bag ps" and "integers_held ps"
  shows "collect_int (JObj ps) ''rowHeight'' [] = Returns (spec_int_field ps ''rowHeight'')"
    and "collect_int (JObj ps) ''bitsPerRow'' (spec_int_field ps ''rowHeight'') =
           Returns (spec_int_field ps ''rowHeight'' @ spec_int_field ps ''bitsPerRow'')"
    and "collect_bool (JObj ps) ''showBits''
           (spec_int_field ps ''rowHeight'' @ spec_int_field ps ''bitsPerRow'') =
         spec_int_field ps ''rowHeight'' @ spec_int_field ps ''bitsPerRow'' @
         spec_bool_field ps ''showBits''"
proof -
  note held = integers_held_fields [OF assms(2)]
  show "collect_int (JObj ps) ''rowHeight'' [] = Returns (spec_int_field ps ''rowHeight'')"
    by (simp add: collect_int_flat [OF assms(1) held(1)] spec_int_field_def set_prop_empty
        split: option.splits)
  have 1: "get_prop (spec_int_field ps ''rowHeight'') ''bitsPerRow'' = None"
    by (simp add: spec_int_field_def split: option.splits)
  show "collect_int (JObj ps) ''bitsPerRow'' (spec_int_field ps ''rowHeight'') =
           Returns (spec_int_field ps ''rowHeight'' @ spec_int_field ps ''bitsPerRow'')"
    by (simp only: collect_int_flat [OF assms(1) held(2)] add_field [OF 1 names_not_indices(2)]
        spec_int_field_def [symmetric])
  have 2: "get_prop (spec_int_field ps ''rowHeight'' @ spec_int_field ps ''bitsPerRow'')
      ''showBits'' = None"
    by (simp add: spec_int_field_def get_prop_append split: option.splits)
  show "collect_bool (JObj ps) ''showBits''
           (spec_int_field ps ''rowHeight'' @ spec_int_field ps ''bitsPerRow'') =
         spec_int_field ps ''rowHeight'' @ spec_int_field ps ''bitsPerRow'' @
         spec_bool_field ps ''showBits''"
    by (simp only: collect_bool_flat [OF assms(1)] add_field [OF 2 names_not_indices(3)]
        spec_bool_field_def [symmetric] append_assoc)
qed

lemma flowchart_options:
  assumes "flat_bag ps" and "integers_held ps"
  shows "collect_int (JObj ps) ''nodeSpacing'' [] = Returns (spec_int_field ps ''nodeSpacing'')"
    and "collect_int (JObj ps) ''rankSpacing'' (spec_int_field ps ''nodeSpacing'') =
           Returns (spec_int_field ps ''nodeSpacing'' @ spec_int_field ps ''rankSpacing'')"
    and "collect_string (JObj ps) ''curve''
           (spec_int_field ps ''nodeSpacing'' @ spec_int_field ps ''rankSpacing'') =
         spec_int_field ps ''nodeSpacing'' @ spec_int_field ps ''rankSpacing'' @
         spec_text_field ps ''curve''"
proof -
  note held = integers_held_fields [OF assms(2)]
  show "collect_int (JObj ps) ''nodeSpacing'' [] = Returns (spec_int_field ps ''nodeSpacing'')"
    by (simp add: collect_int_flat [OF assms(1) held(3)] spec_int_field_def set_prop_empty
        split: option.splits)
  have 1: "get_prop (spec_int_field ps ''nodeSpacing'') ''rankSpacing'' = None"
    by (simp add: spec_int_field_def split: option.splits)
  show "collect_int (JObj ps) ''rankSpacing'' (spec_int_field ps ''nodeSpacing'') =
           Returns (spec_int_field ps ''nodeSpacing'' @ spec_int_field ps ''rankSpacing'')"
    by (simp only: collect_int_flat [OF assms(1) held(4)] add_field [OF 1 names_not_indices(5)]
        spec_int_field_def [symmetric])
  have 2: "get_prop (spec_int_field ps ''nodeSpacing'' @ spec_int_field ps ''rankSpacing'')
      ''curve'' = None"
    by (simp add: spec_int_field_def get_prop_append split: option.splits)
  show "collect_string (JObj ps) ''curve''
           (spec_int_field ps ''nodeSpacing'' @ spec_int_field ps ''rankSpacing'') =
         spec_int_field ps ''nodeSpacing'' @ spec_int_field ps ''rankSpacing'' @
         spec_text_field ps ''curve''"
    by (simp only: collect_string_flat [OF assms(1)] add_field [OF 2 names_not_indices(6)]
        spec_text_field_def [symmetric] append_assoc)
qed

lemma sequence_options:
  assumes "flat_bag ps"
  shows "collect_string (JObj ps) ''messageAlign'' (collect_bool (JObj ps) ''mirrorActors'' []) =
         spec_bool_field ps ''mirrorActors'' @ spec_text_field ps ''messageAlign''"
proof -
  have 0: "collect_bool (JObj ps) ''mirrorActors'' [] = spec_bool_field ps ''mirrorActors''"
    by (simp add: collect_bool_flat [OF assms] spec_bool_field_def set_prop_empty
        split: option.splits)
  have 1: "get_prop (spec_bool_field ps ''mirrorActors'') ''messageAlign'' = None"
    by (simp add: spec_bool_field_def split: option.splits)
  show ?thesis
    by (simp only: 0 collect_string_flat [OF assms] add_field [OF 1 names_not_indices(8)]
        spec_text_field_def [symmetric])
qed

lemma flat_theme_spec:
  assumes "flat_bag ps"
  shows "flat_theme (JObj ps) override = spec_theme ps override"
proof (cases "get_prop ps ''theme''")
  case None
  then show ?thesis by (simp add: flat_theme_def spec_theme_def string_field_def)
next
  case (Some v)
  with assms have "v = JNull \<or> (\<exists>str. v = JStr str)" by (rule flat_bag_get)
  then show ?thesis using Some
    by (auto simp: flat_theme_def spec_theme_def string_field_def)
qed

lemma get_prop_spec_theme:
  "k \<noteq> ''theme'' \<Longrightarrow> get_prop (spec_theme ps override) k = None"
  by (simp add: spec_theme_def theme_only_def split: option.splits)

lemma get_prop_spec_group:
  "get_prop (spec_group family fs) k =
     (if k = family \<and> fs \<noteq> [] then Some (JObj fs) else None)"
  by (simp add: spec_group_def)

lemma flat_config_spec:
  assumes "flat_bag ps" and "integers_held ps"
  shows "flat_config (JObj ps) override = Returns (spec_flat ps override)"
proof -
  let ?t = "spec_theme ps override"
  let ?p = "spec_group ''packet''
       (spec_int_field ps ''rowHeight'' @ spec_int_field ps ''bitsPerRow'' @
        spec_bool_field ps ''showBits'')"
  let ?f = "spec_group ''flowchart''
       (spec_int_field ps ''nodeSpacing'' @ spec_int_field ps ''rankSpacing'' @
        spec_text_field ps ''curve'')"
  have a: "attach ''packet''
       (spec_int_field ps ''rowHeight'' @ spec_int_field ps ''bitsPerRow'' @
        spec_bool_field ps ''showBits'') ?t = ?t @ ?p"
    by (rule attach_group) (simp_all add: get_prop_spec_theme names_not_indices)
  have b: "attach ''flowchart''
       (spec_int_field ps ''nodeSpacing'' @ spec_int_field ps ''rankSpacing'' @
        spec_text_field ps ''curve'') (?t @ ?p) = ?t @ ?p @ ?f"
    using attach_group [of "?t @ ?p" "''flowchart''"]
    by (simp add: get_prop_append get_prop_spec_theme get_prop_spec_group names_not_indices)
  have c: "attach ''sequence''
       (spec_bool_field ps ''mirrorActors'' @ spec_text_field ps ''messageAlign'')
       (?t @ ?p @ ?f) =
     ?t @ ?p @ ?f @ spec_group ''sequence''
       (spec_bool_field ps ''mirrorActors'' @ spec_text_field ps ''messageAlign'')"
    using attach_group [of "?t @ ?p @ ?f" "''sequence''"]
    by (simp add: get_prop_append get_prop_spec_theme get_prop_spec_group names_not_indices)
  show ?thesis
    unfolding flat_config_def
    by (simp only: packet_options [OF assms] flowchart_options [OF assms]
        sequence_options [OF assms(1)] flat_theme_spec [OF assms(1)] result.case a b c
        spec_flat_def)
qed

lemma spec_flat_recognized:
  assumes "\<forall>k \<in> set recognized. get_prop ps k = get_prop qs k"
  shows "spec_flat ps override = spec_flat qs override"
proof -
  have "string_field ps k = string_field qs k" if "k \<in> set recognized" for k
    using assms that by (simp add: string_field_def)
  then show ?thesis
    by (simp add: spec_flat_def spec_theme_def spec_int_field_def spec_bool_field_def
        spec_text_field_def recognized_def)
qed

lemma field_present:
  "spec_int_field ps k \<noteq> [] \<Longrightarrow> get_prop ps k \<noteq> None"
  "spec_bool_field ps k \<noteq> [] \<Longrightarrow> get_prop ps k \<noteq> None"
  "spec_text_field ps k \<noteq> [] \<Longrightarrow> get_prop ps k \<noteq> None"
  by (auto simp: spec_int_field_def spec_bool_field_def spec_text_field_def string_field_def
      split: option.splits)

lemma family_present:
  "get_prop (spec_flat ps override) ''packet'' \<noteq> None \<Longrightarrow>
     \<exists>k \<in> set [''rowHeight'', ''bitsPerRow'', ''showBits'']. get_prop ps k \<noteq> None"
  "get_prop (spec_flat ps override) ''flowchart'' \<noteq> None \<Longrightarrow>
     \<exists>k \<in> set [''nodeSpacing'', ''rankSpacing'', ''curve'']. get_prop ps k \<noteq> None"
  "get_prop (spec_flat ps override) ''sequence'' \<noteq> None \<Longrightarrow>
     \<exists>k \<in> set [''mirrorActors'', ''messageAlign'']. get_prop ps k \<noteq> None"
  using field_present [of ps]
  by (auto simp: spec_flat_def get_prop_append get_prop_spec_theme get_prop_spec_group
      split: option.splits if_splits)

text \<open>
  C5, as amended. The flat config \<open>{"theme":"dark","rowHeight":"40"}\<close> without override
  resolves to exactly \<open>{theme: "dark", packet: {rowHeight: 40}}\<close>. Take a flat attribute bag
  (values that are strings or \<open>null\<close>) that the serialized config parses to, whose field
  \<open>config\<close> is absent, \<open>null\<close>, empty or not a JSON text, and whose integer fields have values
  that a number holds without rounding, those of magnitude at most \<open>2^53\<close>. The resolver
  returns the config of the specification: the recognized fields collected per family,
  integer fields parsed in base 10, boolean fields true for the string \<open>true\<close>, the others
  as strings. Parsing in base 10 is stated for every string: after white space and a sign,
  the digits up to the first other character are read by place, and a string without a
  digit there gives the not-a-number value. A family is attached only if one of its fields
  was present, and two bags that agree on the recognized keys resolve to the same config,
  so that every other key is dropped.
\<close>

theorem flat_attributes_resolved:
  \<open>buildMermaidConfig (Some ''{"theme":"dark","rowHeight":"40"}'') None =
     Returns [(''theme'', JStr ''dark''), (''packet'', JObj [(''rowHeight'', JNum 40 0)])] \<and>
   (flat_bag ps \<and> JSON_parse cfg = Returns (JObj ps) \<and> nested_config (JObj ps) = Returns None \<and>
    integers_held ps \<longrightarrow>
      buildMermaidConfig (Some cfg) override = Returns (spec_flat ps override)) \<and>
   (list_all is_space ws \<and> (sg = [] \<or> sg = ''-'' \<or> sg = ''+'') \<and> list_all is_digit ds \<and>
    (r = [] \<or> \<not> is_digit (hd r)) \<and>
    (sg = [] \<and> ds = [] \<and> r \<noteq> [] \<longrightarrow>
       \<not> is_space (hd r) \<and> hd r \<noteq> CHR ''-'' \<and> hd r \<noteq> CHR ''+'') \<longrightarrow>
      spec_integer (ws @ sg @ ds @ r) =
        (if ds = [] then JNaN
         else JNum ((if sg = ''-'' then - 1 else 1) * decimal_value ds) 0) \<and>
      parse_int_string (ws @ sg @ ds @ r) =
        (if ds = [] then Returns JNaN
         else if exact_double (decimal_value ds)
           then Returns (JNum ((if sg = ''-'' then - 1 else 1) * decimal_value ds) 0)
         else Unrepresented)) \<and>
   (get_prop (spec_flat ps override) ''packet'' \<noteq> None \<longrightarrow>
      (\<exists>k \<in> set [''rowHeight'', ''bitsPerRow'', ''showBits'']. get_prop ps k \<noteq> None)) \<and>
   (get_prop (spec_flat ps override) ''flowchart'' \<noteq> None \<longrightarrow>
      (\<exists>k \<in> set [''nodeSpacing'', ''rankSpacing'', ''curve'']. get_prop ps k \<noteq> None)) \<and>
   (get_prop (spec_flat ps override) ''sequence'' \<noteq> None \<longrightarrow>
      (\<exists>k \<in> set [''mirrorActors'', ''messageAlign'']. get_prop ps k \<noteq> None)) \<and>
   ((\<forall>k \<in> set recognized. get_prop ps k = get_prop qs k) \<longrightarrow>
      spec_flat ps override = spec_flat qs override)\<close>
proof (intro conjI impI)
  show \<open>buildMermaidConfig (Some ''{"theme":"dark","rowHeight":"40"}'') None =
     Returns [(''theme'', JStr ''dark''), (''packet'', JObj [(''rowHeight'', JNum 40 0)])]\<close>
    by code_simp
next
  assume a: "flat_bag ps \<and> JSON_parse cfg = Returns (JObj ps) \<and>
    nested_config (JObj ps) = Returns None \<and> integers_held ps"
  then have "cfg \<noteq> []" using JSON_parse_empty by auto
  then show "buildMermaidConfig (Some cfg) override = Returns (spec_flat ps override)"
    using a by (simp add: buildMermaidConfig_def truthy_str_def flat_config_spec)
next
  assume a: "list_all is_space ws \<and> (sg = [] \<or> sg = ''-'' \<or> sg = ''+'') \<and> list_all is_digit ds \<and>
    (r = [] \<or> \<not> is_digit (hd r)) \<and>
    (sg = [] \<and> ds = [] \<and> r \<noteq> [] \<longrightarrow>
       \<not> is_space (hd r) \<and> hd r \<noteq> CHR ''-'' \<and> hd r \<noteq> CHR ''+'')"
  then show "spec_integer (ws @ sg @ ds @ r) =
        (if ds = [] then JNaN
         else JNum ((if sg = ''-'' then - 1 else 1) * decimal_value ds) 0)"
    by (intro spec_integer_parts) blast+
  from a show "parse_int_string (ws @ sg @ ds @ r) =
        (if ds = [] then Returns JNaN
         else if exact_double (decimal_value ds)
           then Returns (JNum ((if sg = ''-'' then - 1 else 1) * decimal_value ds) 0)
         else Unrepresented)"
    by (intro parse_int_parts) blast+
next
  assume "get_prop (spec_flat ps override) ''packet'' \<noteq> None"
  then show "\<exists>k \<in> set [''rowHeight'', ''bitsPerRow'', ''showBits'']. get_prop ps k \<noteq> None"
    by (rule family_present)
next
  assume "get_prop (spec_flat ps override) ''flowchart'' \<noteq> None"
  then show "\<exists>k \<in> set [''nodeSpacing'', ''rankSpacing'', ''curve'']. get_prop ps k \<noteq> None"
    by (rule family_present)
next
  assume "get_prop (spec_flat ps override) ''sequence'' \<noteq> None"
  then show "\<exists>k \<in> set [''mirrorActors'', ''messageAlign'']. get_prop ps k \<noteq> None"
    by (rule family_present)
next
  assume "\<forall>k \<in> set recognized. get_prop ps k = get_prop qs k"
  then show "spec_flat ps override = spec_flat qs override"
    by (rule spec_flat_recognized)
qed

text \<open>
  C5 as stated fails on a flat bag with a field \<open>config\<close> that is a JSON text: the block
  \<open>rowHeight="40" config="1"\<close> is rewritten with the serialized config
  \<open>{"rowHeight":"40","config":"1"}\<close>, a flat bag, and the resolver returns the empty
  config, without the packet family.
\<close>

theorem flat_attributes_counterexample:
  \<open>JSON_stringify (bag_object (attributes (parseCodeBlockAttributes ''rowHeight="40" config="1"''))) =
     ''{"rowHeight":"40","config":"1"}'' \<and>
   JSON_parse ''{"rowHeight":"40","config":"1"}'' =
     Returns (JObj [(''rowHeight'', JStr ''40''), (''config'', JStr ''1'')]) \<and>
   flat_bag [(''rowHeight'', JStr ''40''), (''config'', JStr ''1'')] \<and>
   buildMermaidConfig (Some ''{"rowHeight":"40","config":"1"}'') None = Returns []\<close>
proof -
  have 1: \<open>JSON_stringify
      (bag_object (attributes (parseCodeBlockAttributes ''rowHeight="40" config="1"''))) =
     ''{"rowHeight":"40","config":"1"}''\<close>
    by code_simp
  have 2: \<open>JSON_parse ''{"rowHeight":"40","config":"1"}'' =
     Returns (JObj [(''rowHeight'', JStr ''40''), (''config'', JStr ''1'')])\<close>
    by code_simp
  have 3: "flat_bag [(''rowHeight'', JStr ''40''), (''config'', JStr ''1'')]"
    by (simp add: flat_bag_def)
  have 4: \<open>buildMermaidConfig (Some ''{"rowHeight":"40","config":"1"}'') None = Returns []\<close>
    by code_simp
  show ?thesis using 1 2 3 4 by simp
qed

theorem flat_attributes_resolved_witness:
  \<open>flat_bag [(''theme'', JStr ''dark''), (''rowHeight'', JStr ''40px''), (''curve'', JStr ''basis''),
       (''mirrorActors'', JStr ''true''), (''zoom'', JStr ''2'')] \<and>
   integers_held [(''theme'', JStr ''dark''), (''rowHeight'', JStr ''40px''),
       (''curve'', JStr ''basis''), (''mirrorActors'', JStr ''true''), (''zoom'', JStr ''2'')] \<and>
   JSON_parse ''{"theme":"dark","rowHeight":"40px","curve":"basis","mirrorActors":"true","zoom":"2"}'' =
     Returns (JObj [(''theme'', JStr ''dark''), (''rowHeight'', JStr ''40px''),
       (''curve'', JStr ''basis''), (''mirrorActors'', JStr ''true''), (''zoom'', JStr ''2'')]) \<and>
   buildMermaidConfig
     (Some ''{"theme":"dark","rowHeight":"40px","curve":"basis","mirrorActors":"true","zoom":"2"}'')
     None =
     Returns [(''theme'', JStr ''dark''), (''packet'', JObj [(''rowHeight'', JNum 40 0)]),
          (''flowchart'', JObj [(''curve'', JStr ''basis'')]),
          (''sequence'', JObj [(''mirrorActors'', JBool True)])] \<and>
   parse_int_string ('' '' @ ''-'' @ ''40'' @ ''px'') = Returns (JNum (- 40) 0) \<and>
   spec_integer ('' '' @ ''-'' @ ''40'' @ ''px'') = JNum (- 40) 0 \<and>
   spec_flat [(''theme'', JStr ''dark''), (''rowHeight'', JStr ''40px''), (''curve'', JStr ''basis''),
       (''mirrorActors'', JStr ''true''), (''zoom'', JStr ''2'')] None =
   spec_flat [(''theme'', JStr ''dark''), (''rowHeight'', JStr ''40px''), (''curve'', JStr ''basis''),
       (''mirrorActors'', JStr ''true'')] None\<close>
proof -
  let ?ps = "[(''theme'', JStr ''dark''), (''rowHeight'', JStr ''40px''), (''curve'', JStr ''basis''),
       (''mirrorActors'', JStr ''true''), (''zoom'', JStr ''2'')]"
  let ?qs = "[(''theme'', JStr ''dark''), (''rowHeight'', JStr ''40px''), (''curve'', JStr ''basis''),
       (''mirrorActors'', JStr ''true'')]"
  let ?cfg = \<open>''{"theme":"dark","rowHeight":"40px","curve":"basis","mirrorActors":"true","zoom":"2"}''\<close>
  have bag: "flat_bag ?ps" by (simp add: flat_bag_def)
  have held: "integers_held ?ps" by code_simp
  have parse: "JSON_parse ?cfg = Returns (JObj ?ps)" by code_simp
  have flat: "nested_config (JObj ?ps) = Returns None" by (simp add: nested_config_def)
  have parts: "list_all is_space '' '' \<and> (''-'' = [] \<or> ''-'' = ''-'' \<or> ''-'' = ''+'') \<and>
      list_all is_digit ''40'' \<and> (''px'' = [] \<or> \<not> is_digit (hd ''px'')) \<and>
      (''-'' = [] \<and> ''40'' = [] \<and> ''px'' \<noteq> [] \<longrightarrow>
         \<not> is_space (hd ''px'') \<and> hd ''px'' \<noteq> CHR ''-'' \<and> hd ''px'' \<noteq> CHR ''+'')"
    by (simp add: is_space_def is_digit_def)
  have spec: "spec_flat ?ps None =
     [(''theme'', JStr ''dark''), (''packet'', JObj [(''rowHeight'', JNum 40 0)]),
      (''flowchart'', JObj [(''curve'', JStr ''basis'')]),
      (''sequence'', JObj [(''mirrorActors'', JBool True)])]"
    by code_simp
  have families: "get_prop (spec_flat ?ps None) ''packet'' \<noteq> None \<and>
      get_prop (spec_flat ?ps None) ''flowchart'' \<noteq> None \<and>
      get_prop (spec_flat ?ps None) ''sequence'' \<noteq> None"
    by (simp add: spec)
  have same: "\<forall>k \<in> set recognized. get_prop ?ps k = get_prop ?qs k"
    by (simp add: recognized_def)
  have val: "decimal_value ''40'' = 40" by code_simp
  have ex: "exact_double 40" by (simp add: exact_double_def)
  note t = flat_attributes_resolved [of ?ps ?cfg None "'' ''" "''-''" "''40''" "''px''" ?qs]
  from t bag parse flat held
  have 1: "buildMermaidConfig (Some ?cfg) None = Returns (spec_flat ?ps None)"
    by blast
  from t parts have 2: "spec_integer ('' '' @ ''-'' @ ''40'' @ ''px'') =
        (if ''40'' = [] then JNaN
         else JNum ((if ''-'' = ''-'' then - 1 else 1) * decimal_value ''40'') 0) \<and>
      parse_int_string ('' '' @ ''-'' @ ''40'' @ ''px'') =
        (if ''40'' = [] then Returns JNaN
         else if exact_double (decimal_value ''40'')
           then Returns (JNum ((if ''-'' = ''-'' then - 1 else 1) * decimal_value ''40'') 0)
         else Unrepresented)"
    by blast
  from 2 have 2: "spec_integer ('' '' @ ''-'' @ ''40'' @ ''px'') = JNum (- 40) 0 \<and>
      parse_int_string ('' '' @ ''-'' @ ''40'' @ ''px'') = Returns (JNum (- 40) 0)"
    unfolding val using ex by simp
  from t same have 3: "spec_flat ?ps None = spec_flat ?qs None" by blast
  from t families have 4: "(\<exists>k \<in> set [''rowHeight'', ''bitsPerRow'', ''showBits'']. get_prop ?ps k \<noteq> None) \<and>
      (\<exists>k \<in> set [''nodeSpacing'', ''rankSpacing'', ''curve'']. get_prop ?ps k \<noteq> None) \<and>
      (\<exists>k \<in> set [''mirrorActors'', ''messageAlign'']. get_prop ?ps k \<noteq> None)"
    by blast
  show ?thesis using bag held parse 1 2 3 4 by (simp only: spec)
qed

lemma has_prop_keys: "has_prop k ps \<longleftrightarrow> k \<in> set (map fst ps)"
  by (induction ps) auto

lemma keys_overwrite: "map fst (overwrite k v ps) = map fst ps"
  by (induction ps) auto

lemma keys_insert_index:
  "set (map fst (insert_index k v ps)) = insert k (set (map fst ps))"
  by (induction k v ps rule: insert_index.induct) auto

lemma distinct_insert_index:
  "k \<notin> set (map fst ps) \<Longrightarrow> distinct (map fst ps) \<Longrightarrow>
   distinct (map fst (insert_index k v ps))"
proof (induction ps)
  case Nil
  show ?case by simp
next
  case (Cons p ps)
  obtain k' v' where p: "p = (k', v')" by (cases p)
  have "k' \<notin> set (map fst (insert_index k v ps))"
    using Cons.prems p by (simp only: keys_insert_index) auto
  then show ?case using Cons p by auto
qed

lemma distinct_set_prop:
  "distinct (map fst ps) \<Longrightarrow> distinct (map fst (set_prop k v ps))"
  by (auto simp: set_prop_def keys_overwrite has_prop_keys distinct_insert_index)

lemma distinct_fold_set_prop:
  "distinct (map fst acc) \<Longrightarrow> distinct (map fst (fold (\<lambda>(k, v). set_prop k v) ms acc))"
proof (induction ms arbitrary: acc)
  case Nil
  then show ?case by simp
next
  case (Cons m ms)
  obtain k v where m: "m = (k, v)" by (cases m)
  have "distinct (map fst (set_prop k v acc))" using Cons.prems by (rule distinct_set_prop)
  then show ?case using Cons.IH m by simp
qed

lemma get_prop_None: "get_prop ps k = None \<longleftrightarrow> k \<notin> set (map fst ps)"
  by (induction ps k rule: get_prop.induct) auto

lemma get_prop_fold_set_prop:
  "distinct (map fst ms) \<Longrightarrow>
   get_prop (fold (\<lambda>(k, v). set_prop k v) ms acc) k' =
     (case get_prop ms k' of Some x \<Rightarrow> Some x | None \<Rightarrow> get_prop acc k')"
proof (induction ms arbitrary: acc)
  case Nil
  show ?case by simp
next
  case (Cons m ms)
  obtain k v where m: "m = (k, v)" by (cases m)
  from Cons.prems m have d: "distinct (map fst ms)" and k: "get_prop ms k = None"
    by (simp_all add: get_prop_None)
  have "get_prop (fold (\<lambda>(k, v). set_prop k v) ms (set_prop k v acc)) k' =
      (case get_prop ms k' of Some x \<Rightarrow> Some x | None \<Rightarrow> get_prop (set_prop k v acc) k')"
    using d by (rule Cons.IH)
  then show ?case using m k by (auto simp: get_prop_set_prop split: option.splits)
qed

lemma parse_number_not_object: "parse_number s \<noteq> Returns (JObj ns, r)"
  by (auto simp: parse_number_def number_value_def Let_def map_result_Returns
      split: option.splits if_splits)

lemma parsed_object_distinct:
  assumes "JSON_parse s = Returns (JObj ns)"
  shows "distinct (map fst ns)"
proof -
  from assms obtain r where pv: "parse_value s = Returns (JObj ns, r)"
    by (auto simp: JSON_parse_def split: result.splits if_splits)
  have "ns = [] \<or> (\<exists>ms. ns = fold (\<lambda>(k, v). set_prop k v) ms [])"
    using pv parse_number_not_object
    by (subst (asm) parse_value.simps)
       (auto simp: make_object_def map_result_Returns split: list.splits if_splits)
  then show ?thesis using distinct_fold_set_prop [of "[]"] by auto
qed

lemma get_prop_spread:
  "distinct (map fst ns) \<Longrightarrow> get_prop (spread (JObj ns)) k = get_prop ns k"
  by (simp add: spread_def get_prop_fold_set_prop split: option.splits)

lemma get_prop_nested_result:
  "get_prop (nested_result parsed override nested) k =
     (if k = ''theme''
      then overlaid_theme (get_prop (spread nested) ''theme'') (get parsed ''theme'') override
      else get_prop (spread nested) k)"
  by (auto simp: nested_result_def overlaid_theme_def Let_def get_prop_set_prop
      split: option.splits)

text \<open>
  C6. The config \<open>{"config":"{\"theme\":\"forest\"}"}\<close> with the override \<open>dark\<close> resolves to
  exactly \<open>{theme: "dark"}\<close>. Whenever the parsed config has a field \<open>config\<close> whose string
  parses to an object, the resolver returns that object with its theme overlaid: every
  other property reads as in the nested object, and the theme is the override when one is
  given, else the truthy top-level theme of the outer object, else the nested theme.
\<close>

theorem nested_config_resolved:
  \<open>buildMermaidConfig
     (Some (''{"config":"{'' @ [bslash] @ ''"theme'' @ [bslash] @ ''":'' @ [bslash] @ ''"forest'' @
            [bslash] @ ''"}"}''))
     (Some ''dark'') = Returns [(''theme'', JStr ''dark'')] \<and>
   (JSON_parse cfg = Returns parsed \<and> get parsed ''config'' = Some (JStr inner) \<and>
    JSON_parse inner = Returns (JObj ns) \<longrightarrow>
      (\<exists>c. buildMermaidConfig (Some cfg) override = Returns c \<and>
           (\<forall>k. k \<noteq> ''theme'' \<longrightarrow> get_prop c k = get_prop ns k) \<and>
           get_prop c ''theme'' =
             overlaid_theme (get_prop ns ''theme'') (get parsed ''theme'') override))\<close>
proof (intro conjI impI)
  show \<open>buildMermaidConfig
     (Some (''{"config":"{'' @ [bslash] @ ''"theme'' @ [bslash] @ ''":'' @ [bslash] @ ''"forest'' @
            [bslash] @ ''"}"}''))
     (Some ''dark'') = Returns [(''theme'', JStr ''dark'')]\<close>
    by code_simp
next
  assume a: "JSON_parse cfg = Returns parsed \<and> get parsed ''config'' = Some (JStr inner) \<and>
    JSON_parse inner = Returns (JObj ns)"
  then have cfg: "cfg \<noteq> []" and inner: "inner \<noteq> []" using JSON_parse_empty by auto
  from a have nn: "parsed \<noteq> JNull" by auto
  from a inner have nested: "nested_config parsed = Returns (Some (JObj ns))"
    by (simp add: nested_config_def)
  have b: "buildMermaidConfig (Some cfg) override =
      Returns (nested_result parsed override (JObj ns))"
    using a cfg nn nested by (simp add: buildMermaidConfig_def truthy_str_def)
  have d: "distinct (map fst ns)" using a parsed_object_distinct by blast
  show "\<exists>c. buildMermaidConfig (Some cfg) override = Returns c \<and>
           (\<forall>k. k \<noteq> ''theme'' \<longrightarrow> get_prop c k = get_prop ns k) \<and>
           get_prop c ''theme'' =
             overlaid_theme (get_prop ns ''theme'') (get parsed ''theme'') override"
    using b by (simp add: get_prop_nested_result get_prop_spread [OF d])
qed

theorem nested_config_resolved_witness:
  \<open>JSON_parse (''{"theme":"neutral","config":"{'' @ [bslash] @ ''"theme'' @ [bslash] @ ''":'' @
       [bslash] @ ''"forest'' @ [bslash] @ ''",'' @ [bslash] @ ''"look'' @ [bslash] @ ''":1}"}'') =
     Returns (JObj [(''theme'', JStr ''neutral''),
       (''config'', JStr (''{"theme":"forest","look":1}''))]) \<and>
   JSON_parse ''{"theme":"forest","look":1}'' =
     Returns (JObj [(''theme'', JStr ''forest''), (''look'', JNum 1 0)]) \<and>
   (\<exists>c. buildMermaidConfig
          (Some (''{"theme":"neutral","config":"{'' @ [bslash] @ ''"theme'' @ [bslash] @ ''":'' @
       [bslash] @ ''"forest'' @ [bslash] @ ''",'' @ [bslash] @ ''"look'' @ [bslash] @ ''":1}"}''))
          (Some ''dark'') = Returns c \<and>
        get_prop c ''look'' = Some (JNum 1 0) \<and> get_prop c ''theme'' = Some (JStr ''dark''))\<close>
proof -
  let ?cfg = \<open>''{"theme":"neutral","config":"{'' @ [bslash] @ ''"theme'' @ [bslash] @ ''":'' @
       [bslash] @ ''"forest'' @ [bslash] @ ''",'' @ [bslash] @ ''"look'' @ [bslash] @ ''":1}"}''\<close>
  let ?inner = \<open>''{"theme":"forest","look":1}''\<close>
  let ?parsed = "JObj [(''theme'', JStr ''neutral''), (''config'', JStr ?inner)]"
  let ?ns = "[(''theme'', JStr ''forest''), (''look'', JNum 1 0)]"
  have 1: "JSON_parse ?cfg = Returns ?parsed" by code_simp
  have 2: "get ?parsed ''config'' = Some (JStr ?inner)" by simp
  have 3: "JSON_parse ?inner = Returns (JObj ?ns)" by code_simp
  from nested_config_resolved [of ?cfg ?parsed ?inner ?ns "Some ''dark''"] 1 2 3
  obtain c where c: "buildMermaidConfig (Some ?cfg) (Some ''dark'') = Returns c"
    and k: "\<forall>k. k \<noteq> ''theme'' \<longrightarrow> get_prop c k = get_prop ?ns k"
    and t: "get_prop c ''theme'' =
             overlaid_theme (get_prop ?ns ''theme'') (get ?parsed ''theme'') (Some ''dark'')"
    by blast
  from k have "get_prop c ''look'' = Some (JNum 1 0)" by simp
  moreover from t have "get_prop c ''theme'' = Some (JStr ''dark'')"
    by (simp add: overlaid_theme_def truthy_str_def)
  ultimately show ?thesis using 1 3 c by blast
qed

section \<open>Properties of the diagram renderer\<close>

lemma pass_hit:
  assumes "cache s ''mermaid'' = Some m" and "state_of (world s) m = Fulfilled"
    and "diagramConfig props sys = Returns c"
    and "cache s (render_key (chart props) (resolvedTheme (themeOverride props) sys)
           (config props)) = Some p"
  shows "MermaidContent uid sys props s =
     Some ((case state_of (world s) p of
              Pending \<Rightarrow> Suspended | Rejected \<Rightarrow> Failed p | Fulfilled \<Rightarrow> Mounted p),
           mermaid_initialize s)"
  using assms
  by (simp add: MermaidContent_def cachePromise_def mermaid_initialize_def
      split: promise_state.splits)

lemma pass_miss:
  assumes "cache s ''mermaid'' = Some m" and "state_of (world s) m = Fulfilled"
    and "diagramConfig props sys = Returns c"
    and "cache s (render_key (chart props) (resolvedTheme (themeOverride props) sys)
           (config props)) = None"
  shows "MermaidContent uid sys props s =
     Some (Suspended,
      \<lparr>cache = (cache s)(render_key (chart props) (resolvedTheme (themeOverride props) sys)
           (config props) \<mapsto> next_promise (world s)),
       world = (world s)\<lparr>next_promise := Suc (next_promise (world s)),
                 state_of := (state_of (world s))(next_promise (world s) := Pending),
                 initialized := True,
                 render_calls := render_calls (world s) @
                   [(uid, fullChart c (chart props), next_promise (world s))]\<rparr>,
       started = started s @ [render_key (chart props)
           (resolvedTheme (themeOverride props) sys) (config props)]\<rparr>)"
  using assms
  by (simp add: MermaidContent_def cachePromise_def mermaid_initialize_def mermaid_render_def)

lemma render_key_config:
  "render_key source theme c1 = render_key source theme c2 \<longleftrightarrow>
   (case c1 of None \<Rightarrow> [] | Some x \<Rightarrow> x) = (case c2 of None \<Rightarrow> [] | Some x \<Rightarrow> x)"
  by (simp add: render_key_def)

lemma diagramConfig_themeCSS:
  "diagramConfig props sys = Returns c \<Longrightarrow>
   get_prop c ''themeCSS'' = Some (JStr (themeCSS props))"
  by (auto simp: diagramConfig_def get_prop_set_prop map_result_Returns)

lemma diagramConfig_agree:
  assumes "diagramConfig a sysA = Returns c"
    and "resolvedTheme (themeOverride a) sysA = resolvedTheme (themeOverride b) sysB"
    and "config a = config b"
  shows "\<exists>c'. diagramConfig b sysB = Returns c'"
  using assms by (auto simp: diagramConfig_def map_result_Returns)

text \<open>A property whose value is a string is written out in the JSON text of the object.\<close>

lemma stringify_props_string:
  "get_prop c k = Some (JStr v) \<Longrightarrow>
   \<exists>x y. stringify_props c = x @ quote_json k @ '':'' @ quote_json v @ y"
proof (induction c)
  case Nil
  then show ?case by simp
next
  case (Cons p ps)
  show ?case
  proof (cases "fst p = k")
    case True
    with Cons.prems have "snd p = JStr v" by (cases p) simp
    then have "stringify_props (p # ps) =
        [] @ quote_json k @ '':'' @ quote_json v @
          (if ps = [] then [] else '','' @ stringify_props ps)"
      using True by simp
    then show ?thesis by blast
  next
    case False
    with Cons.prems have g: "get_prop ps k = Some (JStr v)" by (cases p) simp
    then have ne: "ps \<noteq> []" by auto
    from Cons.IH [OF g] obtain x y where
      "stringify_props ps = x @ quote_json k @ '':'' @ quote_json v @ y"
      by blast
    then have "stringify_props (p # ps) =
        (quote_json (fst p) @ '':'' @ JSON_stringify (snd p) @ '','' @ x) @
          quote_json k @ '':'' @ quote_json v @ y"
      using ne by simp
    then show ?thesis by blast
  qed
qed

lemma fullChart_string:
  assumes "get_prop c k = Some (JStr v)"
  shows "\<exists>x y. fullChart c source =
           ''%%{init: {'' @ x @ quote_json k @ '':'' @ quote_json v @ y @ ''}}%%'' @
           [CHR 0x0A] @ unescape_newlines source"
proof -
  from stringify_props_string [OF assms] obtain x y where
    "stringify_props c = x @ quote_json k @ '':'' @ quote_json v @ y"
    by blast
  then have "fullChart c source =
           ''%%{init: {'' @ x @ quote_json k @ '':'' @ quote_json v @ y @ ''}}%%'' @
           [CHR 0x0A] @ unescape_newlines source"
    by (simp add: fullChart_def)
  then show ?thesis by blast
qed

text \<open>
  C4. Two render requests with the same diagram source and resolved theme whose serialized
  config strings differ (an absent config counting as the empty string) have different
  cache keys. With the engine module loaded, neither key cached yet and both configs
  resolved, the two passes make two calls of the engine's \<open>render\<close>, one for each request in
  turn, and leave two cache entries holding two different promises.
\<close>

theorem distinct_configs_render_twice:
  assumes "chart a = chart b"
    and "resolvedTheme (themeOverride a) sysA = resolvedTheme (themeOverride b) sysB"
    and "(case config a of None \<Rightarrow> [] | Some x \<Rightarrow> x) \<noteq> (case config b of None \<Rightarrow> [] | Some x \<Rightarrow> x)"
    and "keyA = render_key (chart a) (resolvedTheme (themeOverride a) sysA) (config a)"
    and "keyB = render_key (chart b) (resolvedTheme (themeOverride b) sysB) (config b)"
  shows "keyA \<noteq> keyB \<and>
     (cache s ''mermaid'' = Some m \<and> state_of (world s) m = Fulfilled \<and>
      m < next_promise (world s) \<and> cache s keyA = None \<and> cache s keyB = None \<and>
      diagramConfig a sysA = Returns ca \<and> diagramConfig b sysB = Returns cb \<longrightarrow>
        (\<exists>s1 s2.
           MermaidContent uidA sysA a s = Some (Suspended, s1) \<and>
           MermaidContent uidB sysB b s1 = Some (Suspended, s2) \<and>
           render_calls (world s2) =
             render_calls (world s) @
               [(uidA, fullChart ca (chart a), next_promise (world s)),
                (uidB, fullChart cb (chart b), Suc (next_promise (world s)))] \<and>
           cache s2 keyA = Some (next_promise (world s)) \<and>
           cache s2 keyB = Some (Suc (next_promise (world s))) \<and>
           started s2 = started s @ [keyA, keyB]))"
proof (intro conjI impI)
  show ne: "keyA \<noteq> keyB"
    using assms by (simp add: render_key_config)
  assume h: "cache s ''mermaid'' = Some m \<and> state_of (world s) m = Fulfilled \<and>
      m < next_promise (world s) \<and> cache s keyA = None \<and> cache s keyB = None \<and>
      diagramConfig a sysA = Returns ca \<and> diagramConfig b sysB = Returns cb"
  let ?p = "next_promise (world s)"
  let ?s1 = "\<lparr>cache = (cache s)(keyA \<mapsto> ?p),
       world = (world s)\<lparr>next_promise := Suc ?p,
                 state_of := (state_of (world s))(?p := Pending),
                 initialized := True,
                 render_calls := render_calls (world s) @ [(uidA, fullChart ca (chart a), ?p)]\<rparr>,
       started = started s @ [keyA]\<rparr>"
  let ?s2 = "\<lparr>cache = (cache ?s1)(keyB \<mapsto> next_promise (world ?s1)),
       world = (world ?s1)\<lparr>next_promise := Suc (next_promise (world ?s1)),
                 state_of := (state_of (world ?s1))(next_promise (world ?s1) := Pending),
                 initialized := True,
                 render_calls := render_calls (world ?s1) @
                   [(uidB, fullChart cb (chart b), next_promise (world ?s1))]\<rparr>,
       started = started ?s1 @ [keyB]\<rparr>"
  have first: "MermaidContent uidA sysA a s = Some (Suspended, ?s1)"
    using pass_miss [of s m a sysA ca uidA] h assms(4) by simp
  have mk: "keyA \<noteq> ''mermaid''" using h by auto
  have 1: "cache ?s1 ''mermaid'' = Some m" using h mk by simp
  have 2: "state_of (world ?s1) m = Fulfilled" using h by auto
  have 3: "cache ?s1 keyB = None" using h ne by simp
  have second: "MermaidContent uidB sysB b ?s1 = Some (Suspended, ?s2)"
    using pass_miss [of ?s1 m b sysB cb uidB] 1 2 3 h assms(5) by simp
  have calls: "render_calls (world ?s2) =
          render_calls (world s) @
            [(uidA, fullChart ca (chart a), next_promise (world s)),
             (uidB, fullChart cb (chart b), Suc (next_promise (world s)))]"
    by simp
  have ka: "cache ?s2 keyA = Some (next_promise (world s))"
    using ne by simp
  have kb: "cache ?s2 keyB = Some (Suc (next_promise (world s)))"
    by simp
  have st: "started ?s2 = started s @ [keyA, keyB]"
    by simp
  show "\<exists>s1 s2.
           MermaidContent uidA sysA a s = Some (Suspended, s1) \<and>
           MermaidContent uidB sysB b s1 = Some (Suspended, s2) \<and>
           render_calls (world s2) =
             render_calls (world s) @
               [(uidA, fullChart ca (chart a), next_promise (world s)),
                (uidB, fullChart cb (chart b), Suc (next_promise (world s)))] \<and>
           cache s2 keyA = Some (next_promise (world s)) \<and>
           cache s2 keyB = Some (Suc (next_promise (world s))) \<and>
           started s2 = started s @ [keyA, keyB]"
    using first second calls ka kb st by blast
qed

text \<open>
  C10. Two render invocations that agree on the diagram source, the resolved theme and the
  serialized config have the same cache key, whatever their \<open>themeCSS\<close>. The first one
  submits to the engine the composed source: the directive \<open>%%{init: ...}%%\<close>, whose JSON
  text holds the member \<open>"themeCSS"\<close> with the \<open>themeCSS\<close> of that invocation as its value, a
  line feed and the diagram source. The second one, whatever the promises have become
  meanwhile, ends on the promise of the first, calls nothing and leaves the runtime as it
  is, so that its \<open>themeCSS\<close> reaches no markup.
\<close>

theorem themeCSS_not_in_key:
  assumes "chart a = chart b"
    and "resolvedTheme (themeOverride a) sysA = resolvedTheme (themeOverride b) sysB"
    and "config a = config b"
    and "key = render_key (chart a) (resolvedTheme (themeOverride a) sysA) (config a)"
    and "cache s ''mermaid'' = Some m" and "state_of (world s) m = Fulfilled"
    and "cache s key = None"
    and "diagramConfig a sysA = Returns c"
  shows "render_key (chart b) (resolvedTheme (themeOverride b) sysB) (config b) = key \<and>
     get_prop c ''themeCSS'' = Some (JStr (themeCSS a)) \<and>
     (\<exists>s1.
        MermaidContent uidA sysA a s = Some (Suspended, s1) \<and>
        render_calls (world s1) =
          render_calls (world s) @ [(uidA, fullChart c (chart a), next_promise (world s))] \<and>
        (\<exists>x y. render_calls (world s1) =
           render_calls (world s) @
             [(uidA,
               ''%%{init: {'' @ x @ quote_json ''themeCSS'' @ '':'' @ quote_json (themeCSS a) @ y @
               ''}}%%'' @ [CHR 0x0A] @ unescape_newlines (chart a),
               next_promise (world s))]) \<and>
        cache s1 key = Some (next_promise (world s)) \<and>
        (\<forall>st. st m = Fulfilled \<longrightarrow>
           MermaidContent uidB sysB b (s1\<lparr>world := (world s1)\<lparr>state_of := st\<rparr>\<rparr>) =
             Some ((case st (next_promise (world s)) of
                      Pending \<Rightarrow> Suspended
                    | Rejected \<Rightarrow> Failed (next_promise (world s))
                    | Fulfilled \<Rightarrow> Mounted (next_promise (world s))),
                   s1\<lparr>world := (world s1)\<lparr>state_of := st\<rparr>\<rparr>)))"
proof (intro conjI)
  let ?p = "next_promise (world s)"
  let ?s1 = "\<lparr>cache = (cache s)(key \<mapsto> ?p),
       world = (world s)\<lparr>next_promise := Suc ?p,
                 state_of := (state_of (world s))(?p := Pending),
                 initialized := True,
                 render_calls := render_calls (world s) @ [(uidA, fullChart c (chart a), ?p)]\<rparr>,
       started = started s @ [key]\<rparr>"
  show same: "render_key (chart b) (resolvedTheme (themeOverride b) sysB) (config b) = key"
    using assms(1-4) by simp
  show css: "get_prop c ''themeCSS'' = Some (JStr (themeCSS a))"
    using assms(8) by (rule diagramConfig_themeCSS)
  have first: "MermaidContent uidA sysA a s = Some (Suspended, ?s1)"
    using pass_miss [of s m a sysA c uidA] assms(4-8) by simp
  have calls: "render_calls (world ?s1) =
       render_calls (world s) @ [(uidA, fullChart c (chart a), next_promise (world s))]"
    by simp
  from fullChart_string [OF css, of "chart a"] obtain x y where
    "fullChart c (chart a) =
       ''%%{init: {'' @ x @ quote_json ''themeCSS'' @ '':'' @ quote_json (themeCSS a) @ y @
       ''}}%%'' @ [CHR 0x0A] @ unescape_newlines (chart a)"
    by blast
  with calls have source: "\<exists>x y. render_calls (world ?s1) =
           render_calls (world s) @
             [(uidA,
               ''%%{init: {'' @ x @ quote_json ''themeCSS'' @ '':'' @ quote_json (themeCSS a) @ y @
               ''}}%%'' @ [CHR 0x0A] @ unescape_newlines (chart a),
               next_promise (world s))]"
    by auto
  have entry: "cache ?s1 key = Some (next_promise (world s))"
    by simp
  have again: "MermaidContent uidB sysB b (?s1\<lparr>world := (world ?s1)\<lparr>state_of := st\<rparr>\<rparr>) =
          Some ((case st (next_promise (world s)) of
                   Pending \<Rightarrow> Suspended
                 | Rejected \<Rightarrow> Failed (next_promise (world s))
                 | Fulfilled \<Rightarrow> Mounted (next_promise (world s))),
                ?s1\<lparr>world := (world ?s1)\<lparr>state_of := st\<rparr>\<rparr>)"
    if st: "st m = Fulfilled" for st
  proof -
    let ?t = "?s1\<lparr>world := (world ?s1)\<lparr>state_of := st\<rparr>\<rparr>"
    obtain c' where c': "diagramConfig b sysB = Returns c'"
      using diagramConfig_agree [OF assms(8) assms(2) assms(3)] by blast
    have mk: "key \<noteq> ''mermaid''" using assms(5,7) by auto
    have 1: "cache ?t ''mermaid'' = Some m" using assms(5) mk by simp
    have 2: "state_of (world ?t) m = Fulfilled" using st by simp
    have 3: "cache ?t (render_key (chart b) (resolvedTheme (themeOverride b) sysB) (config b)) =
        Some ?p"
      unfolding same by simp
    have init: "mermaid_initialize ?t = ?t"
      by (simp add: mermaid_initialize_def)
    show ?thesis
      using pass_hit [OF 1 2 c' 3, of uidB] init by simp
  qed
  show "\<exists>s1.
        MermaidContent uidA sysA a s = Some (Suspended, s1) \<and>
        render_calls (world s1) =
          render_calls (world s) @ [(uidA, fullChart c (chart a), next_promise (world s))] \<and>
        (\<exists>x y. render_calls (world s1) =
           render_calls (world s) @
             [(uidA,
               ''%%{init: {'' @ x @ quote_json ''themeCSS'' @ '':'' @ quote_json (themeCSS a) @ y @
               ''}}%%'' @ [CHR 0x0A] @ unescape_newlines (chart a),
               next_promise (world s))]) \<and>
        cache s1 key = Some (next_promise (world s)) \<and>
        (\<forall>st. st m = Fulfilled \<longrightarrow>
           MermaidContent uidB sysB b (s1\<lparr>world := (world s1)\<lparr>state_of := st\<rparr>\<rparr>) =
             Some ((case st (next_promise (world s)) of
                      Pending \<Rightarrow> Suspended
                    | Rejected \<Rightarrow> Failed (next_promise (world s))
                    | Fulfilled \<Rightarrow> Mounted (next_promise (world s))),
                   s1\<lparr>world := (world s1)\<lparr>state_of := st\<rparr>\<rparr>))"
    using first calls source entry again by blast
qed

theorem distinct_configs_render_twice_witness:
  \<open>render_key ''graph TD'' ''dark'' (Some ''{"theme":"dark"}'') \<noteq>
     render_key ''graph TD'' ''dark'' (Some ''{"theme":"forest"}'') \<and>
   (\<exists>s1 s2.
      MermaidContent ''r1'' (Some ''dark'') (sample_props ''margin: 0;'' (Some ''{"theme":"dark"}''))
        loaded_runtime = Some (Suspended, s1) \<and>
      MermaidContent ''r2'' (Some ''dark'') (sample_props ''margin: 0;'' (Some ''{"theme":"forest"}''))
        s1 = Some (Suspended, s2) \<and>
      render_calls (world s2) =
        [(''r1'', ''%%{init: {"theme":"dark","themeCSS":"margin: 0;"}}%%'' @ [CHR 0x0A] @ ''graph TD'',
          1),
         (''r2'', ''%%{init: {"theme":"forest","themeCSS":"margin: 0;"}}%%'' @ [CHR 0x0A] @ ''graph TD'',
          2)] \<and>
      cache s2 (render_key ''graph TD'' ''dark'' (Some ''{"theme":"dark"}'')) = Some 1 \<and>
      cache s2 (render_key ''graph TD'' ''dark'' (Some ''{"theme":"forest"}'')) = Some 2 \<and>
      started s2 =
        [''mermaid'', render_key ''graph TD'' ''dark'' (Some ''{"theme":"dark"}''),
         render_key ''graph TD'' ''dark'' (Some ''{"theme":"forest"}'')])\<close>
proof -
  let ?a = \<open>sample_props ''margin: 0;'' (Some ''{"theme":"dark"}'')\<close>
  let ?b = \<open>sample_props ''margin: 0;'' (Some ''{"theme":"forest"}'')\<close>
  let ?sys = "Some ''dark''"
  let ?keyA = \<open>render_key ''graph TD'' ''dark'' (Some ''{"theme":"dark"}'')\<close>
  let ?keyB = \<open>render_key ''graph TD'' ''dark'' (Some ''{"theme":"forest"}'')\<close>
  let ?ca = "[(''theme'', JStr ''dark''), (''themeCSS'', JStr ''margin: 0;'')]"
  let ?cb = "[(''theme'', JStr ''forest''), (''themeCSS'', JStr ''margin: 0;'')]"
  have 1: "chart ?a = chart ?b" by (simp add: sample_props_def)
  have 2: "resolvedTheme (themeOverride ?a) ?sys = resolvedTheme (themeOverride ?b) ?sys"
    by (simp add: sample_props_def)
  have 3: "(case config ?a of None \<Rightarrow> [] | Some x \<Rightarrow> x) \<noteq> (case config ?b of None \<Rightarrow> [] | Some x \<Rightarrow> x)"
    by (simp add: sample_props_def)
  have 4: "?keyA = render_key (chart ?a) (resolvedTheme (themeOverride ?a) ?sys) (config ?a)"
    by (simp add: sample_props_def resolvedTheme_def)
  have 5: "?keyB = render_key (chart ?b) (resolvedTheme (themeOverride ?b) ?sys) (config ?b)"
    by (simp add: sample_props_def resolvedTheme_def)
  have da: "diagramConfig ?a ?sys = Returns ?ca" by code_simp
  have db: "diagramConfig ?b ?sys = Returns ?cb" by code_simp
  have ka: "cache loaded_runtime ?keyA = None" by (simp add: loaded_runtime_def render_key_def)
  have kb: "cache loaded_runtime ?keyB = None" by (simp add: loaded_runtime_def render_key_def)
  have fa: \<open>fullChart ?ca (chart ?a) =
      ''%%{init: {"theme":"dark","themeCSS":"margin: 0;"}}%%'' @ [CHR 0x0A] @ ''graph TD''\<close>
    by code_simp
  have fb: \<open>fullChart ?cb (chart ?b) =
      ''%%{init: {"theme":"forest","themeCSS":"margin: 0;"}}%%'' @ [CHR 0x0A] @ ''graph TD''\<close>
    by code_simp
  have h: "cache loaded_runtime ''mermaid'' = Some 0 \<and>
      state_of (world loaded_runtime) 0 = Fulfilled \<and>
      0 < next_promise (world loaded_runtime) \<and> cache loaded_runtime ?keyA = None \<and>
      cache loaded_runtime ?keyB = None \<and>
      diagramConfig ?a ?sys = Returns ?ca \<and> diagramConfig ?b ?sys = Returns ?cb"
    using da db ka kb by (simp add: loaded_runtime_def)
  note t = distinct_configs_render_twice [OF 1 2 3 4 5,
      where s = loaded_runtime and m = 0 and ca = ?ca and cb = ?cb
        and uidA = "''r1''" and uidB = "''r2''"]
  from t have ne: "?keyA \<noteq> ?keyB" by (rule conjunct1)
  from t h obtain s1 s2 where
    p1: "MermaidContent ''r1'' ?sys ?a loaded_runtime = Some (Suspended, s1)" and
    p2: "MermaidContent ''r2'' ?sys ?b s1 = Some (Suspended, s2)" and
    c: "render_calls (world s2) =
          render_calls (world loaded_runtime) @
            [(''r1'', fullChart ?ca (chart ?a), next_promise (world loaded_runtime)),
             (''r2'', fullChart ?cb (chart ?b), Suc (next_promise (world loaded_runtime)))]" and
    ea: "cache s2 ?keyA = Some (next_promise (world loaded_runtime))" and
    eb: "cache s2 ?keyB = Some (Suc (next_promise (world loaded_runtime)))" and
    st: "started s2 = started loaded_runtime @ [?keyA, ?keyB]"
    by blast
  have c': \<open>render_calls (world s2) =
        [(''r1'', ''%%{init: {"theme":"dark","themeCSS":"margin: 0;"}}%%'' @ [CHR 0x0A] @ ''graph TD'',
          1),
         (''r2'', ''%%{init: {"theme":"forest","themeCSS":"margin: 0;"}}%%'' @ [CHR 0x0A] @ ''graph TD'',
          2)]\<close>
    unfolding c fa fb by (simp add: loaded_runtime_def)
  have ea': "cache s2 ?keyA = Some 1" using ea by (simp add: loaded_runtime_def)
  have eb': "cache s2 ?keyB = Some 2" using eb by (simp add: loaded_runtime_def)
  have st': "started s2 = [''mermaid'', ?keyA, ?keyB]"
    using st by (simp add: loaded_runtime_def)
  show ?thesis using ne p1 p2 c' ea' eb' st' by blast
qed

theorem themeCSS_not_in_key_witness:
  \<open>render_key ''graph TD'' ''dark'' (Some ''{"rowHeight":"40"}'') =
     render_key ''graph TD'' ''dark'' (Some ''{"rowHeight":"40"}'') \<and>
   (\<exists>s1.
      MermaidContent ''r1'' (Some ''dark'')
        (sample_props ''margin: 0;'' (Some ''{"rowHeight":"40"}'')) loaded_runtime =
        Some (Suspended, s1) \<and>
      render_calls (world s1) =
        [(''r1'',
          ''%%{init: {"theme":"dark","packet":{"rowHeight":40},"themeCSS":"margin: 0;"}}%%'' @
          [CHR 0x0A] @ ''graph TD'', 1)] \<and>
      MermaidContent ''r2'' (Some ''dark'')
        (sample_props ''margin: 9px;'' (Some ''{"rowHeight":"40"}''))
        (s1\<lparr>world := (world s1)\<lparr>state_of := \<lambda>p. Fulfilled\<rparr>\<rparr>) =
        Some (Mounted 1, s1\<lparr>world := (world s1)\<lparr>state_of := \<lambda>p. Fulfilled\<rparr>\<rparr>))\<close>
proof -
  let ?a = \<open>sample_props ''margin: 0;'' (Some ''{"rowHeight":"40"}'')\<close>
  let ?b = \<open>sample_props ''margin: 9px;'' (Some ''{"rowHeight":"40"}'')\<close>
  let ?sys = "Some ''dark''"
  let ?key = \<open>render_key ''graph TD'' ''dark'' (Some ''{"rowHeight":"40"}'')\<close>
  let ?c = "[(''theme'', JStr ''dark''), (''packet'', JObj [(''rowHeight'', JNum 40 0)]),
             (''themeCSS'', JStr ''margin: 0;'')]"
  have 1: "chart ?a = chart ?b" by (simp add: sample_props_def)
  have 2: "resolvedTheme (themeOverride ?a) ?sys = resolvedTheme (themeOverride ?b) ?sys"
    by (simp add: sample_props_def)
  have 3: "config ?a = config ?b" by (simp add: sample_props_def)
  have 4: "?key = render_key (chart ?a) (resolvedTheme (themeOverride ?a) ?sys) (config ?a)"
    by (simp add: sample_props_def resolvedTheme_def)
  have 5: "cache loaded_runtime ''mermaid'' = Some 0" by (simp add: loaded_runtime_def)
  have 6: "state_of (world loaded_runtime) 0 = Fulfilled" by (simp add: loaded_runtime_def)
  have 7: "cache loaded_runtime ?key = None" by (simp add: loaded_runtime_def render_key_def)
  have 8: "diagramConfig ?a ?sys = Returns ?c" by code_simp
  have f: \<open>fullChart ?c (chart ?a) =
      ''%%{init: {"theme":"dark","packet":{"rowHeight":40},"themeCSS":"margin: 0;"}}%%'' @
      [CHR 0x0A] @ ''graph TD''\<close>
    by code_simp
  from themeCSS_not_in_key [OF 1 2 3 4 5 6 7 8, where uidA = "''r1''" and uidB = "''r2''"]
  obtain s1 where
    p1: "MermaidContent ''r1'' ?sys ?a loaded_runtime = Some (Suspended, s1)" and
    r: "render_calls (world s1) =
       render_calls (world loaded_runtime) @
         [(''r1'', fullChart ?c (chart ?a), next_promise (world loaded_runtime))]" and
    again: "\<forall>st. st 0 = Fulfilled \<longrightarrow>
        MermaidContent ''r2'' ?sys ?b (s1\<lparr>world := (world s1)\<lparr>state_of := st\<rparr>\<rparr>) =
          Some ((case st (next_promise (world loaded_runtime)) of
                   Pending \<Rightarrow> Suspended
                 | Rejected \<Rightarrow> Failed (next_promise (world loaded_runtime))
                 | Fulfilled \<Rightarrow> Mounted (next_promise (world loaded_runtime))),
                s1\<lparr>world := (world s1)\<lparr>state_of := st\<rparr>\<rparr>)"
    by blast
  have r1: \<open>render_calls (world s1) =
        [(''r1'',
          ''%%{init: {"theme":"dark","packet":{"rowHeight":40},"themeCSS":"margin: 0;"}}%%'' @
          [CHR 0x0A] @ ''graph TD'', 1)]\<close>
    unfolding r f by (simp add: loaded_runtime_def)
  from again have m: "MermaidContent ''r2'' ?sys ?b
        (s1\<lparr>world := (world s1)\<lparr>state_of := \<lambda>p. Fulfilled\<rparr>\<rparr>) =
      Some (Mounted 1, s1\<lparr>world := (world s1)\<lparr>state_of := \<lambda>p. Fulfilled\<rparr>\<rparr>)"
    by (simp add: loaded_runtime_def)
  show ?thesis using p1 r1 m by blast
qed

end
